theory Spec2Isabelle
  imports Complex_Main "HOL-Library.Multiset"
begin

section \<open>JavaScript string primitives used by the sources\<close>

text \<open>
  Strings are character lists. The functions below model the few methods of
  \<^verbatim>\<open>String\<close> and \<^verbatim>\<open>Number\<close> that \<^verbatim>\<open>useRecorder.ts\<close> and
  \<^verbatim>\<open>AudioSplitter.tsx\<close> call: \<^verbatim>\<open>toString\<close> of a non-negative integer,
  \<^verbatim>\<open>padStart\<close>, \<^verbatim>\<open>split\<close> on a one-character separator,
  \<^verbatim>\<open>startsWith\<close>, \<^verbatim>\<open>lastIndexOf\<close>, \<^verbatim>\<open>substring\<close> and
  \<^verbatim>\<open>toLowerCase\<close> (on ASCII letters).
\<close>

definition digit_char :: "nat \<Rightarrow> char" where
  "digit_char d = char_of (48 + d)"

definition is_digit :: "char \<Rightarrow> bool" where
  "is_digit c = (48 \<le> (of_char c :: nat) \<and> (of_char c :: nat) \<le> 57)"

definition digit_val :: "char \<Rightarrow> nat" where
  "digit_val c = of_char c - 48"

text \<open>\<^verbatim>\<open>n.toString()\<close> for a non-negative integer \<open>n\<close>: its decimal digits.\<close>

fun toString :: "nat \<Rightarrow> string" where
  "toString n = (if n < 10 then [digit_char n] else toString (n div 10) @ [digit_char (n mod 10)])"

declare toString.simps [simp del]

text \<open>The value of a run of decimal digits, most significant first.\<close>

definition digits_value :: "string \<Rightarrow> nat" where
  "digits_value ds = foldl (\<lambda>a c. 10 * a + digit_val c) 0 ds"

text \<open>\<^verbatim>\<open>s.padStart(n, c)\<close> with a one-character filler.\<close>

definition padStart :: "nat \<Rightarrow> char \<Rightarrow> string \<Rightarrow> string" where
  "padStart n c s = replicate (n - length s) c @ s"

text \<open>
  \<^verbatim>\<open>s.split(sep)\<close> for a one-character separator: the pieces between the
  occurrences of \<open>sep\<close>; never the empty list (\<^verbatim>\<open>''.split('/')\<close> is \<^verbatim>\<open>['']\<close>).
\<close>

fun split :: "char \<Rightarrow> string \<Rightarrow> string list" where
  "split sep [] = [[]]"
| "split sep (c # cs) =
     (if c = sep then [] # split sep cs
      else (case split sep cs of [] \<Rightarrow> [[c]] | p # ps \<Rightarrow> (c # p) # ps))"

definition startsWith :: "string \<Rightarrow> string \<Rightarrow> bool" where
  "startsWith s p = (take (length p) s = p)"

text \<open>\<^verbatim>\<open>s.lastIndexOf(c)\<close>: the last position of \<open>c\<close>, or \<open>-1\<close>.\<close>

fun lastIndexOf_from :: "char \<Rightarrow> string \<Rightarrow> int \<Rightarrow> int \<Rightarrow> int" where
  "lastIndexOf_from c [] i found = found"
| "lastIndexOf_from c (x # xs) i found = lastIndexOf_from c xs (i + 1) (if x = c then i else found)"

definition lastIndexOf :: "char \<Rightarrow> string \<Rightarrow> int" where
  "lastIndexOf c s = lastIndexOf_from c s 0 (- 1)"

text \<open>\<^verbatim>\<open>s.substring(0, e)\<close>: a negative end counts as \<open>0\<close>.\<close>

definition substring0 :: "int \<Rightarrow> string \<Rightarrow> string" where
  "substring0 e s = take (nat e) s"

definition lower_char :: "char \<Rightarrow> char" where
  "lower_char c = (if 65 \<le> (of_char c :: nat) \<and> (of_char c :: nat) \<le> 90
                   then char_of ((of_char c :: nat) + 32) else c)"

definition toLowerCase :: "string \<Rightarrow> string" where
  "toLowerCase s = map lower_char s"

section \<open>The recorder hook (\<^verbatim>\<open>src/hooks/useRecorder.ts\<close>)\<close>

subsection \<open>Data\<close>

datatype RecordingStatus = Idle | Recording | Stopped

text \<open>A \<^verbatim>\<open>Blob\<close>: its bytes and its declared media type; \<^verbatim>\<open>blob.size\<close> is the number of bytes.\<close>

record Blob =
  blob_bytes :: "nat list"
  blob_type :: string

definition blob_size :: "Blob \<Rightarrow> nat" where
  "blob_size b = length (blob_bytes b)"

text \<open>\<^verbatim>\<open>new Blob(parts, { type })\<close>: the parts concatenated.\<close>

definition new_Blob :: "Blob list \<Rightarrow> string \<Rightarrow> Blob" where
  "new_Blob parts ty = \<lparr>blob_bytes = concat (map blob_bytes parts), blob_type = ty\<rparr>"

record SplitFile =
  name :: string
  blob :: Blob

text \<open>
  A reading of the clock: \<^verbatim>\<open>ms\<close> is the time on the timer's scale in
  milliseconds, the other fields are what the getters of \<^verbatim>\<open>new Date()\<close> return
  (\<^verbatim>\<open>getMonth\<close> counts from 0).
\<close>

record Clock =
  ms :: real
  getFullYear :: nat
  getMonth :: nat
  getDate :: nat
  getHours :: nat
  getMinutes :: nat

subsection \<open>Segment names\<close>

text \<open>Lines 55--60 of \<^verbatim>\<open>mediaRecorder.onstop\<close>: the base name built from \<^verbatim>\<open>now\<close>.\<close>

definition baseName_of :: "Clock \<Rightarrow> string" where
  "baseName_of now =
     (let year = toString (getFullYear now);
          month = padStart 2 (CHR ''0'') (toString (getMonth now + 1));
          day = padStart 2 (CHR ''0'') (toString (getDate now));
          hours = padStart 2 (CHR ''0'') (toString (getHours now));
          minutes = padStart 2 (CHR ''0'') (toString (getMinutes now))
      in year @ month @ day @ hours @ minutes)"

text \<open>
  Line 53: \<^verbatim>\<open>mimeType.split('/')[1].split(';')[0]\<close>. When the media type has no
  \<^verbatim>\<open>'/'\<close>, index 1 is \<^verbatim>\<open>undefined\<close> and the call of \<^verbatim>\<open>split\<close> on it throws a
  \<^verbatim>\<open>TypeError\<close>: the result \<open>None\<close>.
\<close>

definition fileExtension_of :: "string \<Rightarrow> string option" where
  "fileExtension_of mimeType =
     (case split (CHR ''/'') mimeType of
        _ # p1 # _ \<Rightarrow> (case split (CHR '';'') p1 of [] \<Rightarrow> None | e # _ \<Rightarrow> Some e)
      | _ \<Rightarrow> None)"

definition numbered_name :: "string \<Rightarrow> string \<Rightarrow> nat \<Rightarrow> string" where
  "numbered_name baseName fileExtension counter =
     baseName @ ''_'' @ toString counter @ ''.'' @ fileExtension"

text \<open>
  Lines 63--69, the loop inside the updater of \<^verbatim>\<open>setRecordedChunks\<close>:
  \<^verbatim>\<open>while (prev.some(chunk => chunk.name === finalName)) { counter++; finalName = ... }\<close>
  with its two variables \<open>finalName\<close> and \<open>counter\<close> as arguments.
\<close>

function unique_name :: "string \<Rightarrow> string \<Rightarrow> SplitFile list \<Rightarrow> string \<Rightarrow> nat \<Rightarrow> string" where
  "unique_name baseName fileExtension prev finalName counter =
     (if list_ex (\<lambda>chunk. name chunk = finalName) prev
      then unique_name baseName fileExtension prev
             (numbered_name baseName fileExtension (counter + 1)) (counter + 1)
      else finalName)"
  by pat_completeness auto

text \<open>
  The counters above \<open>c\<close> whose numbered name is taken. The set is finite because
  different counters give different names, and it shrinks with every turn of the loop.
\<close>

definition taken_above :: "string \<Rightarrow> string \<Rightarrow> SplitFile list \<Rightarrow> nat \<Rightarrow> nat set" where
  "taken_above b e prev c = {k. c < k \<and> numbered_name b e k \<in> name ` set prev}"

subsection \<open>State of the hook and of the browser objects it drives\<close>

text \<open>
  \<^verbatim>\<open>MediaRecorder.state\<close>; \<^verbatim>\<open>'paused'\<close> never arises, the hook calls neither
  \<^verbatim>\<open>pause\<close> nor \<^verbatim>\<open>resume\<close>.
\<close>

datatype RecorderState = Inactive | RecorderRecording

text \<open>
  One \<^verbatim>\<open>MediaRecorder\<close> made by \<^verbatim>\<open>startNewSegment\<close>, with the variables its
  handlers close over: \<^verbatim>\<open>mimeType\<close> and the local array \<^verbatim>\<open>recorderChunks\<close>.
  \<open>mr_stop_pending\<close> holds from the call of \<^verbatim>\<open>stop()\<close> until the browser has
  dispatched the \<^verbatim>\<open>stop\<close> event. \<open>mr_started\<close> is not in the source: it records the
  clock reading at which the pass began, so that statements can refer to it.
\<close>

record MediaRecorder =
  mr_state :: RecorderState
  mr_mimeType :: string
  recorderChunks :: "Blob list"
  mr_started :: Clock
  mr_stop_pending :: bool

text \<open>The three user-facing texts of the \<^verbatim>\<open>catch\<close> block of \<^verbatim>\<open>startRecording\<close>.\<close>

datatype Message = MicPermissionDenied | CannotStartRecording string | UnknownStartError

text \<open>A thrown value: an \<^verbatim>\<open>Error\<close> with its \<^verbatim>\<open>name\<close> and \<^verbatim>\<open>message\<close>, or anything else.\<close>

datatype Thrown = ErrorObject string string | NotAnError

text \<open>
  How far the \<^verbatim>\<open>try\<close> block of \<^verbatim>\<open>startRecording\<close> gets:
  \<^verbatim>\<open>getUserMedia\<close> rejects (line 100), the \<^verbatim>\<open>AudioContext\<close> constructor throws
  (line 104), the \<^verbatim>\<open>MediaRecorder\<close> constructor inside \<^verbatim>\<open>startNewSegment\<close> throws
  (line 133 calling line 40, e.g. \<^verbatim>\<open>NotSupportedError\<close> for a media type the browser
  cannot record), or every call returns.
\<close>

datatype StartOutcome =
  GetUserMediaRejects Thrown
| AudioContextThrows Thrown
| MediaRecorderThrows Thrown
| SetupSucceeds

text \<open>
  The React state (\<open>status\<close>, \<open>recordedChunks\<close>, \<open>error\<close>), the refs, and the
  browser side: the recorders made so far (a ref holds an index into the list), the
  streams whose tracks are live, the running intervals as (id, armed at, period in ms),
  the pending animation-frame requests, and the next handle the browser hands out
  (timer and frame ids are positive). \<open>pending_starts\<close> holds the calls of
  \<^verbatim>\<open>startRecording\<close> that are suspended at \<^verbatim>\<open>await getUserMedia\<close>, each with
  its two arguments. The \<^verbatim>\<open>volume\<close> state and the audio nodes themselves are left
  out; of the three audio refs only whether they are set.
\<close>

record Recorder =
  status :: RecordingStatus
  recordedChunks :: "SplitFile list"
  error :: "Message option"
  mediaRecorderRef :: "nat option"
  streamRef :: "nat option"
  segmentTimerRef :: "nat option"
  mimeTypeRef :: string
  segmentDurationRef :: real
  audioContextRef :: bool
  analyserRef :: bool
  sourceNodeRef :: bool
  animationFrameIdRef :: "nat option"
  recorders :: "MediaRecorder list"
  live_streams :: "nat list"
  intervals :: "(nat \<times> real \<times> real) list"
  frame_requests :: "nat list"
  next_handle :: nat
  pending_starts :: "(string \<times> real) list"

definition init :: Recorder where
  "init = \<lparr>status = Idle, recordedChunks = [], error = None,
            mediaRecorderRef = None, streamRef = None, segmentTimerRef = None,
            mimeTypeRef = [], segmentDurationRef = 0,
            audioContextRef = False, analyserRef = False, sourceNodeRef = False,
            animationFrameIdRef = None,
            recorders = [], live_streams = [], intervals = [], frame_requests = [],
            next_handle = 1, pending_starts = []\<rparr>"

subsection \<open>Browser primitives\<close>

text \<open>\<^verbatim>\<open>if (ref.current)\<close> on a numeric handle: \<^verbatim>\<open>null\<close> and \<open>0\<close> are falsy.\<close>

definition truthy :: "nat option \<Rightarrow> bool" where
  "truthy r = (case r of None \<Rightarrow> False | Some h \<Rightarrow> h \<noteq> 0)"

definition clearInterval :: "nat option \<Rightarrow> Recorder \<Rightarrow> Recorder" where
  "clearInterval r s = s\<lparr>intervals := filter (\<lambda>(h, armed, period). Some h \<noteq> r) (intervals s)\<rparr>"

text \<open>
  The timeout of \<^verbatim>\<open>setInterval\<close> is converted to a 32-bit \<^verbatim>\<open>long\<close>: truncated
  towards zero, taken modulo \<open>2\<^sup>3\<^sup>2\<close> and read as a signed number; a negative
  result counts as 0. (The lower bound of 4 ms that browsers put on nested timers is
  left out.) The product \<^verbatim>\<open>minutes * 60 * 1000\<close> that the hook passes is taken over
  the reals.
\<close>

definition to_long :: "real \<Rightarrow> int" where
  "to_long x =
     (let n = (if x < 0 then - \<lfloor>- x\<rfloor> else \<lfloor>x\<rfloor>);
          m = n mod 4294967296
      in if m \<ge> 2147483648 then m - 4294967296 else m)"

definition timer_delay :: "real \<Rightarrow> real" where
  "timer_delay x = real_of_int (max 0 (to_long x))"

definition setInterval :: "real \<Rightarrow> Clock \<Rightarrow> Recorder \<Rightarrow> nat \<times> Recorder" where
  "setInterval delay now s =
     (next_handle s,
      s\<lparr>intervals := intervals s @ [(next_handle s, ms now, timer_delay delay)],
        next_handle := next_handle s + 1\<rparr>)"

text \<open>
  An interval armed at \<open>a\<close> with period \<open>p\<close> calls back at \<open>a + p\<close>, \<open>a + 2p\<close>, \<dots>,
  or later when the browser is busy: never before \<open>a + p\<close>.
\<close>

definition first_callback :: "nat \<times> real \<times> real \<Rightarrow> real" where
  "first_callback t = (case t of (h, armed, period) \<Rightarrow> armed + period)"

definition cancelAnimationFrame :: "nat option \<Rightarrow> Recorder \<Rightarrow> Recorder" where
  "cancelAnimationFrame r s = s\<lparr>frame_requests := filter (\<lambda>h. Some h \<noteq> r) (frame_requests s)\<rparr>"

definition requestAnimationFrame :: "Recorder \<Rightarrow> nat \<times> Recorder" where
  "requestAnimationFrame s =
     (next_handle s,
      s\<lparr>frame_requests := frame_requests s @ [next_handle s], next_handle := next_handle s + 1\<rparr>)"

text \<open>\<^verbatim>\<open>getUserMedia\<close> resolving: a new stream with live tracks.\<close>

definition getUserMedia :: "Recorder \<Rightarrow> nat \<times> Recorder" where
  "getUserMedia s =
     (next_handle s,
      s\<lparr>live_streams := live_streams s @ [next_handle s], next_handle := next_handle s + 1\<rparr>)"

text \<open>\<^verbatim>\<open>stream.getTracks().forEach(track => track.stop())\<close>\<close>

definition stop_tracks :: "nat \<Rightarrow> Recorder \<Rightarrow> Recorder" where
  "stop_tracks stream s = s\<lparr>live_streams := filter (\<lambda>h. h \<noteq> stream) (live_streams s)\<rparr>"

text \<open>The recorder a ref points to, and \<^verbatim>\<open>mediaRecorder.stop()\<close> on it.\<close>

definition recorder_at :: "Recorder \<Rightarrow> nat \<Rightarrow> MediaRecorder option" where
  "recorder_at s rid = (if rid < length (recorders s) then Some (recorders s ! rid) else None)"

definition recorder_stop :: "nat \<Rightarrow> Recorder \<Rightarrow> Recorder" where
  "recorder_stop rid s =
     (case recorder_at s rid of
        None \<Rightarrow> s
      | Some r \<Rightarrow> s\<lparr>recorders := (recorders s)[rid := r\<lparr>mr_state := Inactive, mr_stop_pending := True\<rparr>]\<rparr>)"

subsection \<open>The operations of the hook\<close>

text \<open>Lines 22--35. \<^verbatim>\<open>setVolume(0)\<close> and the closing of the context are not modelled.\<close>

definition cleanupAudioContext :: "Recorder \<Rightarrow> Recorder" where
  "cleanupAudioContext s =
     (let s1 = (if truthy (animationFrameIdRef s)
                then (cancelAnimationFrame (animationFrameIdRef s) s)\<lparr>animationFrameIdRef := None\<rparr>
                else s)
      in s1\<lparr>sourceNodeRef := False, analyserRef := False, audioContextRef := False\<rparr>)"

text \<open>
  Lines 37--81 when the constructor returns: a new recorder with an empty chunk array is
  stored in the ref and started.
\<close>

definition startNewSegment :: "Clock \<Rightarrow> nat \<Rightarrow> string \<Rightarrow> Recorder \<Rightarrow> Recorder" where
  "startNewSegment now stream mimeType s =
     s\<lparr>mediaRecorderRef := Some (length (recorders s)),
       recorders := recorders s @
         [\<lparr>mr_state = RecorderRecording, mr_mimeType = mimeType, recorderChunks = [],
           mr_started = now, mr_stop_pending = False\<rparr>]\<rparr>"

text \<open>Lines 43--47, the \<^verbatim>\<open>dataavailable\<close> handler of recorder \<open>rid\<close>.\<close>

definition ondataavailable :: "nat \<Rightarrow> Blob \<Rightarrow> Recorder \<Rightarrow> Recorder" where
  "ondataavailable rid data s =
     (case recorder_at s rid of
        None \<Rightarrow> s
      | Some r \<Rightarrow>
          if blob_size data > 0
          then s\<lparr>recorders := (recorders s)[rid := r\<lparr>recorderChunks := recorderChunks r @ [data]\<rparr>]\<rparr>
          else s)"

text \<open>
  Lines 49--78, the \<^verbatim>\<open>stop\<close> handler, with the two variables it closes over as
  arguments. The only exception it can raise is the \<^verbatim>\<open>TypeError\<close> of line 53.
\<close>

datatype Exn = TypeError

definition onstop :: "Blob list \<Rightarrow> string \<Rightarrow> Clock \<Rightarrow> Recorder \<Rightarrow> Exn + Recorder" where
  "onstop chunks mimeType now s =
     (let blob = new_Blob chunks mimeType in
      if blob_size blob > 0 then
        (case fileExtension_of mimeType of
           None \<Rightarrow> Inl TypeError
         | Some fileExtension \<Rightarrow>
             (let baseName = baseName_of now;
                  prev = recordedChunks s;
                  finalName = unique_name baseName fileExtension prev
                                (baseName @ ''.'' @ fileExtension) 1;
                  newChunk = \<lparr>name = finalName, blob = blob\<rparr>
              in Inr (s\<lparr>recordedChunks := prev @ [newChunk]\<rparr>)))
      else Inr s)"

text \<open>Lines 83--90.\<close>

definition createNewSegment :: "Clock \<Rightarrow> Recorder \<Rightarrow> Recorder" where
  "createNewSegment now s =
     (let s1 = (case mediaRecorderRef s of
                  None \<Rightarrow> s
                | Some rid \<Rightarrow>
                    if map_option mr_state (recorder_at s rid) = Some RecorderRecording
                    then recorder_stop rid s else s)
      in case streamRef s1 of
           None \<Rightarrow> s1
         | Some stream \<Rightarrow> startNewSegment now stream (mimeTypeRef s1) s1)"

text \<open>Lines 139--150, the \<^verbatim>\<open>catch\<close> block: the message for a thrown value.\<close>

definition start_error :: "Thrown \<Rightarrow> Message" where
  "start_error err =
     (case err of
        ErrorObject ename emessage \<Rightarrow>
          if ename = ''NotAllowedError'' \<or> ename = ''PermissionDeniedError''
          then MicPermissionDenied else CannotStartRecording emessage
      | NotAnError \<Rightarrow> UnknownStartError)"

text \<open>Lines 117--131: one run of \<^verbatim>\<open>draw\<close> (the sample itself is not modelled).\<close>

definition draw :: "Recorder \<Rightarrow> Recorder" where
  "draw s =
     (if \<not> analyserRef s then s
      else (case requestAnimationFrame s of (h, s1) \<Rightarrow> s1\<lparr>animationFrameIdRef := Some h\<rparr>))"

text \<open>Lines 100--101: the stream is acquired and stored.\<close>

definition acquire_stream :: "Recorder \<Rightarrow> Recorder" where
  "acquire_stream s = (case getUserMedia s of (stream, s1) \<Rightarrow> s1\<lparr>streamRef := Some stream\<rparr>)"

text \<open>Lines 104--131: the analyser is built, the three refs are set, \<^verbatim>\<open>draw()\<close> runs once.\<close>

definition start_telemetry :: "Recorder \<Rightarrow> Recorder" where
  "start_telemetry s = draw (s\<lparr>audioContextRef := True, analyserRef := True, sourceNodeRef := True\<rparr>)"

text \<open>
  Lines 92--151. \<^verbatim>\<open>startRecording\<close> is an \<^verbatim>\<open>async\<close> function: it runs up to
  \<^verbatim>\<open>await getUserMedia\<close> (line 100), is suspended there, and goes on when the
  promise settles. Other events can come in between, also another call.

  The first part, lines 93--100: the message is cleared, the status is tested (the
  \<^verbatim>\<open>status\<close> of the render whose callback is called; a render follows every event
  that changes it, so it is the current one), the two refs are set, and the call waits.
\<close>

definition startRecording_begin :: "string \<Rightarrow> real \<Rightarrow> Recorder \<Rightarrow> Recorder" where
  "startRecording_begin mimeType segmentDurationMinutes s =
     (let s0 = s\<lparr>error := None\<rparr> in
      if status s = Recording then s0
      else s0\<lparr>mimeTypeRef := mimeType, segmentDurationRef := segmentDurationMinutes,
              pending_starts := pending_starts s0 @ [(mimeType, segmentDurationMinutes)]\<rparr>)"

text \<open>
  The second part, lines 100--150, from the moment the promise settles. The status is
  not tested again, and \<open>mimeType\<close> and \<open>segmentDurationMinutes\<close> are the arguments of
  the call, not the refs.
\<close>

definition startRecording_resume ::
    "string \<Rightarrow> real \<Rightarrow> StartOutcome \<Rightarrow> Clock \<Rightarrow> Recorder \<Rightarrow> Recorder" where
  "startRecording_resume mimeType segmentDurationMinutes outcome now s1 =
     (case outcome of
        GetUserMediaRejects err \<Rightarrow> s1\<lparr>error := Some (start_error err)\<rparr>
      | AudioContextThrows err \<Rightarrow> (acquire_stream s1)\<lparr>error := Some (start_error err)\<rparr>
      | MediaRecorderThrows err \<Rightarrow>
          (start_telemetry (acquire_stream s1))\<lparr>error := Some (start_error err)\<rparr>
      | SetupSucceeds \<Rightarrow>
          (let s2 = start_telemetry (acquire_stream s1);
               s3 = (case streamRef s2 of
                       None \<Rightarrow> s2
                     | Some stream \<Rightarrow> startNewSegment now stream mimeType s2);
               s4 = s3\<lparr>status := Recording\<rparr>
           in if segmentDurationMinutes > 0
              then (case setInterval (segmentDurationMinutes * 60 * 1000) now s4 of
                      (h, s5) \<Rightarrow> s5\<lparr>segmentTimerRef := Some h\<rparr>)
              else s4))"

text \<open>The promise of the suspended call number \<open>k\<close> settles and that call goes on.\<close>

definition getUserMedia_settles :: "nat \<Rightarrow> StartOutcome \<Rightarrow> Clock \<Rightarrow> Recorder \<Rightarrow> Recorder" where
  "getUserMedia_settles k outcome now s =
     (if k < length (pending_starts s)
      then (case pending_starts s ! k of
              (mimeType, segmentDurationMinutes) \<Rightarrow>
                startRecording_resume mimeType segmentDurationMinutes outcome now
                  (s\<lparr>pending_starts := take k (pending_starts s) @ drop (Suc k) (pending_starts s)\<rparr>))
      else s)"

text \<open>A call of \<^verbatim>\<open>startRecording\<close> whose promise settles before anything else happens.\<close>

definition startRecording :: "string \<Rightarrow> real \<Rightarrow> StartOutcome \<Rightarrow> Clock \<Rightarrow> Recorder \<Rightarrow> Recorder" where
  "startRecording mimeType segmentDurationMinutes outcome now s =
     getUserMedia_settles (length (pending_starts s)) outcome now
       (startRecording_begin mimeType segmentDurationMinutes s)"

text \<open>Lines 158--161 and 206--209: the timer is cleared and its ref reset.\<close>

definition clear_segment_timer :: "Recorder \<Rightarrow> Recorder" where
  "clear_segment_timer s =
     (if truthy (segmentTimerRef s)
      then (clearInterval (segmentTimerRef s) s)\<lparr>segmentTimerRef := None\<rparr>
      else s)"

text \<open>Lines 167--170 and 202--205: the tracks are stopped and the stream ref reset.\<close>

definition release_stream :: "Recorder \<Rightarrow> Recorder" where
  "release_stream s =
     (case streamRef s of
        None \<Rightarrow> s
      | Some stream \<Rightarrow> (stop_tracks stream s)\<lparr>streamRef := None\<rparr>)"

text \<open>Lines 153--173.\<close>

definition stopRecording :: "Recorder \<Rightarrow> Recorder" where
  "stopRecording s =
     (case mediaRecorderRef s of
        None \<Rightarrow> s
      | Some rid \<Rightarrow>
          if status s \<noteq> Recording then s
          else
            (let s1 = cleanupAudioContext s;
                 s2 = clear_segment_timer s1;
                 s3 = (if map_option mr_state (recorder_at s2 rid) = Some RecorderRecording
                       then recorder_stop rid s2 else s2);
                 s4 = release_stream s3
             in s4\<lparr>status := Stopped\<rparr>))"

text \<open>Lines 175--187. The old interval is cleared without resetting the ref.\<close>

definition splitSegment :: "Clock \<Rightarrow> Recorder \<Rightarrow> Recorder" where
  "splitSegment now s =
     (if status s \<noteq> Recording then s
      else
        (let s1 = createNewSegment now s;
             s2 = (if truthy (segmentTimerRef s1) then clearInterval (segmentTimerRef s1) s1 else s1)
         in if segmentDurationRef s2 > 0
            then (case setInterval (segmentDurationRef s2 * 60 * 1000) now s2 of
                    (h, s3) \<Rightarrow> s3\<lparr>segmentTimerRef := Some h\<rparr>)
            else s2))"

text \<open>
  Lines 189--191: \<^verbatim>\<open>prev.filter((_, index) => index !== indexToDelete)\<close>. The index is
  a JavaScript number; an integer here, so that \<open>-1\<close> (what \<^verbatim>\<open>indexOf\<close> gives the
  caller for a missing file) is an input.
\<close>

definition deleteSegment :: "int \<Rightarrow> Recorder \<Rightarrow> Recorder" where
  "deleteSegment indexToDelete s =
     s\<lparr>recordedChunks :=
         map snd (filter (\<lambda>(index, chunk). int index \<noteq> indexToDelete)
                    (enumerate 0 (recordedChunks s)))\<rparr>"

text \<open>Lines 193--211.\<close>

definition resetRecording :: "Recorder \<Rightarrow> Recorder" where
  "resetRecording s =
     (let s1 = (if status s = Recording then stopRecording s else cleanupAudioContext s);
          s2 = s1\<lparr>status := Idle, recordedChunks := [], mediaRecorderRef := None\<rparr>;
          s3 = release_stream s2;
          s4 = clear_segment_timer s3
      in s4\<lparr>error := None\<rparr>)"

subsection \<open>Runs of the hook\<close>

text \<open>
  What can happen to a mounted hook: a call of one of its five operations, or the
  browser calling back: an interval fires (\<^verbatim>\<open>createNewSegment\<close>), a recorder delivers
  data or its \<^verbatim>\<open>stop\<close> event, an animation frame runs \<^verbatim>\<open>draw\<close>. A start is
  either \<open>StartRecording\<close>, the call whose promise settles at once, or the pair
  \<open>StartBegins\<close> and, any number of events later, \<open>GetUserMediaSettles\<close>. The browser
  only calls back for handles that are live, calls an interval back no earlier than one
  period after it was armed, delivers data only for a recorder that is recording or has
  a \<^verbatim>\<open>stop\<close> event pending, and dispatches \<^verbatim>\<open>stop\<close> once per call of
  \<^verbatim>\<open>stop()\<close>. An exception in the \<^verbatim>\<open>stop\<close> handler is not caught by the hook; the
  state stays as it was.
\<close>

datatype Event =
  StartRecording string real StartOutcome Clock
| StopRecording
| SplitSegment Clock
| DeleteSegment int
| ResetRecording
| IntervalFires nat Clock
| DataAvailable nat Blob
| StopEvent nat Clock
| AnimationFrame nat
| StartBegins string real
| GetUserMediaSettles nat StartOutcome Clock

definition dispatch_stop :: "nat \<Rightarrow> Clock \<Rightarrow> Recorder \<Rightarrow> Recorder" where
  "dispatch_stop rid now s =
     (case recorder_at s rid of
        None \<Rightarrow> s
      | Some r \<Rightarrow>
          if mr_stop_pending r then
            (let s1 = s\<lparr>recorders := (recorders s)[rid := r\<lparr>mr_stop_pending := False\<rparr>]\<rparr>
             in case onstop (recorderChunks r) (mr_mimeType r) now s1 of
                  Inl e \<Rightarrow> s1
                | Inr s2 \<Rightarrow> s2)
          else s)"

definition dispatch_data :: "nat \<Rightarrow> Blob \<Rightarrow> Recorder \<Rightarrow> Recorder" where
  "dispatch_data rid data s =
     (case recorder_at s rid of
        None \<Rightarrow> s
      | Some r \<Rightarrow>
          if mr_state r = RecorderRecording \<or> mr_stop_pending r
          then ondataavailable rid data s else s)"

definition dispatch_frame :: "nat \<Rightarrow> Recorder \<Rightarrow> Recorder" where
  "dispatch_frame h s =
     (if h \<in> set (frame_requests s)
      then draw (s\<lparr>frame_requests := filter (\<lambda>k. k \<noteq> h) (frame_requests s)\<rparr>)
      else s)"

fun step :: "Event \<Rightarrow> Recorder \<Rightarrow> Recorder" where
  "step (StartRecording mimeType minutes outcome now) s = startRecording mimeType minutes outcome now s"
| "step StopRecording s = stopRecording s"
| "step (SplitSegment now) s = splitSegment now s"
| "step (DeleteSegment i) s = deleteSegment i s"
| "step ResetRecording s = resetRecording s"
| "step (IntervalFires h now) s =
     (if list_ex (\<lambda>t. fst t = h \<and> first_callback t \<le> ms now) (intervals s)
      then createNewSegment now s else s)"
| "step (DataAvailable rid data) s = dispatch_data rid data s"
| "step (StopEvent rid now) s = dispatch_stop rid now s"
| "step (AnimationFrame h) s = dispatch_frame h s"
| "step (StartBegins mimeType minutes) s = startRecording_begin mimeType minutes s"
| "step (GetUserMediaSettles k outcome now) s = getUserMedia_settles k outcome now s"

definition run :: "Event list \<Rightarrow> Recorder \<Rightarrow> Recorder" where
  "run es s = foldl (\<lambda>s e. step e s) s es"

subsection \<open>Invariants\<close>

text \<open>An event other than the two halves of a start that other events may come between.\<close>

fun sequential :: "Event \<Rightarrow> bool" where
  "sequential (StartBegins mimeType minutes) = False"
| "sequential (GetUserMediaSettles k outcome now) = False"
| "sequential e = True"

text \<open>
  What holds of the intervals in every state reached by sequential events: while the
  session is recording with a positive \<open>segmentDurationRef\<close>, exactly one interval runs,
  its period is that many minutes, and its handle is the one in \<open>segmentTimerRef\<close>;
  otherwise no interval runs.
\<close>

definition armed :: "Recorder \<Rightarrow> bool" where
  "armed s =
     (0 < next_handle s \<and>
      (if status s = Recording \<and> 0 < segmentDurationRef s
       then (\<exists>h a. intervals s = [(h, a, timer_delay (segmentDurationRef s * 60 * 1000))] \<and>
                    segmentTimerRef s = Some h \<and> 0 < h \<and> h < next_handle s)
       else intervals s = []))"

text \<open>
  What the stop and reset paths establish for the stream and the sampling loop: at most
  one animation-frame request is pending and it is the one in \<open>animationFrameIdRef\<close>,
  at most one stream has live tracks and it is the one in \<open>streamRef\<close>, a recording
  session has a recorder, and outside \<open>Recording\<close> no request is pending, no track is
  live and \<open>streamRef\<close> is empty.
\<close>

definition released :: "Recorder \<Rightarrow> bool" where
  "released s =
     (0 < next_handle s \<and>
      (frame_requests s = [] \<or>
       (\<exists>h. frame_requests s = [h] \<and> animationFrameIdRef s = Some h \<and> 0 < h)) \<and>
      (live_streams s = [] \<or> (\<exists>h. live_streams s = [h] \<and> streamRef s = Some h)) \<and>
      (if status s = Recording then mediaRecorderRef s \<noteq> None
       else frame_requests s = [] \<and> live_streams s = [] \<and> streamRef s = None))"

text \<open>An event other than a start that fails after the stream was acquired.\<close>

fun no_partial_start :: "Event \<Rightarrow> bool" where
  "no_partial_start (StartRecording mimeType minutes (AudioContextThrows err) now) = False"
| "no_partial_start (StartRecording mimeType minutes (MediaRecorderThrows err) now) = False"
| "no_partial_start e = True"

section \<open>The batch splitter (\<^verbatim>\<open>src/components/AudioSplitter.tsx\<close>)\<close>

subsection \<open>Data\<close>

text \<open>The component's \<^verbatim>\<open>status\<close>: \<^verbatim>\<open>'idle' | 'loading' | 'processing' | 'done'\<close>.\<close>

datatype SplitterStatus = SIdle | SLoading | SProcessing | SDone

text \<open>The texts shown as \<^verbatim>\<open>progressMessage\<close> (lines 39, 59, 105, 115, 123) and as \<^verbatim>\<open>error\<close>
  (lines 89, 93, 74, 130, 148), by what they say.\<close>

datatype ProgressMessage =
  NoMessage | PreparingEngine | LoadingCore | PreparingFile | SplittingAudio | ReadingResults

datatype SplitterError =
  SelectFileFirst | DurationMustBePositive | EngineLoadFailed | NoFilesProduced | ProcessingFailed

record File =
  file_name :: string
  file_type :: string
  file_data :: "nat list"

text \<open>
  The engine made by \<^verbatim>\<open>createFFmpeg\<close>. Its \<^verbatim>\<open>progress\<close> callback is an arrow
  function created inside \<^verbatim>\<open>loadFFmpeg\<close>; the \<^verbatim>\<open>status\<close> it tests is the variable
  of the render in which \<^verbatim>\<open>loadFFmpeg\<close> ran, kept here as \<open>progress_status\<close>. \<open>fs\<close> is
  the root of the engine's working area: the names of the files in it with their
  contents, in the order \<^verbatim>\<open>readdir\<close> lists them. The entries a root has apart from
  files (\<^verbatim>\<open>.\<close>, \<^verbatim>\<open>..\<close> and the directories the engine creates at start) are left
  out.
\<close>

record FFmpeg =
  progress_status :: SplitterStatus
  fs :: "(string \<times> nat list) list"

text \<open>The state of the component; \<open>selectedFile\<close>, \<open>job_status\<close> and \<open>job_error\<close> are
  \<^verbatim>\<open>file\<close>, \<^verbatim>\<open>status\<close> and \<^verbatim>\<open>error\<close> in the source.\<close>

record Splitter =
  selectedFile :: "File option"
  splitDuration :: real
  job_status :: SplitterStatus
  progressMessage :: ProgressMessage
  progressRatio :: int
  job_error :: "SplitterError option"
  splitFiles :: "SplitFile list"
  ffmpegRef :: "FFmpeg option"

text \<open>
  What the surroundings do during one call of \<^verbatim>\<open>handleSplit\<close>: whether the
  \<^verbatim>\<open>FFMPEG\<close> global appears within the fifty polls, whether \<^verbatim>\<open>createFFmpeg\<close> and
  \<^verbatim>\<open>load\<close> succeed and what a new engine's working area holds, whether
  \<^verbatim>\<open>fetchFile\<close> resolves, and for \<^verbatim>\<open>ffmpeg.run\<close>: the ratios it reports, the files it
  writes, and whether it resolves or throws. A report is the \<^verbatim>\<open>ratio\<close> handed to the
  callback together with the number that \<^verbatim>\<open>Math.round(ratio * 100)\<close> evaluates to for
  it; the floating point arithmetic behind that number is the platform's and is not
  modelled. A \<^verbatim>\<open>ratio\<close> that is not a number fails both comparisons of line 64, as a
  ratio out of range does.
\<close>

record JobEnv =
  script_loaded :: bool
  load_resolves :: bool
  initial_fs :: "(string \<times> nat list) list"
  fetchFile_resolves :: bool
  run_reports :: "(real \<times> int) list"
  run_writes :: "(string \<times> nat list) list"
  run_resolves :: bool

subsection \<open>The working area\<close>

definition FS_writeFile :: "string \<Rightarrow> nat list \<Rightarrow> (string \<times> nat list) list \<Rightarrow> (string \<times> nat list) list" where
  "FS_writeFile n d entries =
     (if n \<in> fst ` set entries
      then map (\<lambda>(m, old). if m = n then (m, d) else (m, old)) entries
      else entries @ [(n, d)])"

definition FS_readdir :: "(string \<times> nat list) list \<Rightarrow> string list" where
  "FS_readdir entries = map fst entries"

text \<open>\<^verbatim>\<open>readFile\<close> and \<^verbatim>\<open>unlink\<close> throw for a name that is not there: \<open>None\<close>.\<close>

definition FS_readFile :: "string \<Rightarrow> (string \<times> nat list) list \<Rightarrow> nat list option" where
  "FS_readFile n entries = map_of entries n"

definition FS_unlink :: "string \<Rightarrow> (string \<times> nat list) list \<Rightarrow> (string \<times> nat list) list option" where
  "FS_unlink n entries =
     (if n \<in> fst ` set entries then Some (filter (\<lambda>(m, d). m \<noteq> n) entries) else None)"

definition engine_fs :: "Splitter \<Rightarrow> (string \<times> nat list) list" where
  "engine_fs s = (case ffmpegRef s of None \<Rightarrow> [] | Some ffmpeg \<Rightarrow> fs ffmpeg)"

definition set_engine_fs :: "(string \<times> nat list) list \<Rightarrow> Splitter \<Rightarrow> Splitter" where
  "set_engine_fs entries s =
     (case ffmpegRef s of
        None \<Rightarrow> s
      | Some ffmpeg \<Rightarrow> s\<lparr>ffmpegRef := Some (ffmpeg\<lparr>fs := entries\<rparr>)\<rparr>)"

subsection \<open>Comparing names\<close>

text \<open>
  \<^verbatim>\<open>a.localeCompare(b, undefined, { numeric: true })\<close> is the platform's collation
  with numeric ordering: a maximal run of decimal digits counts as one unit and two
  such units compare by their numeric value. The order among the other characters is
  the collation's own; character codes stand in for it here.
\<close>

datatype token = Num nat | Sym char

function tokens :: "string \<Rightarrow> token list" where
  "tokens [] = []"
| "tokens (c # cs) =
     (if is_digit c
      then Num (digits_value (c # takeWhile is_digit cs)) # tokens (dropWhile is_digit cs)
      else Sym c # tokens cs)"
  by pat_completeness auto

termination tokens
  by (relation "measure length") (auto simp: length_dropWhile_le less_Suc_eq_le)

definition sign :: "int \<Rightarrow> int" where
  "sign x = (if x < 0 then - 1 else if x = 0 then 0 else 1)"

fun compare_token :: "token \<Rightarrow> token \<Rightarrow> int" where
  "compare_token (Num a) (Num b) = sign (int a - int b)"
| "compare_token (Sym a) (Sym b) = sign (of_char a - of_char b)"
| "compare_token (Num a) (Sym b) = sign (48 - of_char b)"
| "compare_token (Sym a) (Num b) = sign (of_char a - 48)"

fun compare_tokens :: "token list \<Rightarrow> token list \<Rightarrow> int" where
  "compare_tokens [] [] = 0"
| "compare_tokens [] (b # bs) = - 1"
| "compare_tokens (a # as) [] = 1"
| "compare_tokens (a # as) (b # bs) =
     (if compare_token a b \<noteq> 0 then compare_token a b else compare_tokens as bs)"

definition localeCompare_numeric :: "string \<Rightarrow> string \<Rightarrow> int" where
  "localeCompare_numeric a b = compare_tokens (tokens a) (tokens b)"

text \<open>
  \<^verbatim>\<open>array.sort(cmp)\<close>: a stable sort; each element is put behind the elements it
  does not precede.
\<close>

fun insert_by :: "('a \<Rightarrow> 'a \<Rightarrow> int) \<Rightarrow> 'a \<Rightarrow> 'a list \<Rightarrow> 'a list" where
  "insert_by cmp x [] = [x]"
| "insert_by cmp x (y # ys) = (if cmp x y < 0 then x # y # ys else y # insert_by cmp x ys)"

definition sort_by :: "('a \<Rightarrow> 'a \<Rightarrow> int) \<Rightarrow> 'a list \<Rightarrow> 'a list" where
  "sort_by cmp xs = foldl (\<lambda>acc x. insert_by cmp x acc) [] xs"

subsection \<open>The operations\<close>

text \<open>
  Lines 63--67, the \<^verbatim>\<open>progress\<close> callback. \<open>seen_status\<close> is the \<^verbatim>\<open>status\<close> it closes
  over and \<open>rounded\<close> the value of \<^verbatim>\<open>Math.round(ratio * 100)\<close>.
\<close>

definition progress :: "SplitterStatus \<Rightarrow> real \<Rightarrow> int \<Rightarrow> Splitter \<Rightarrow> Splitter" where
  "progress seen_status ratio rounded s =
     (if ratio \<ge> 0 \<and> ratio \<le> 1 \<and> seen_status = SProcessing
      then s\<lparr>progressRatio := rounded\<rparr>
      else s)"

text \<open>The engine making a report: it calls the callback it was created with.\<close>

definition report_progress :: "real \<times> int \<Rightarrow> Splitter \<Rightarrow> Splitter" where
  "report_progress r s =
     (case ffmpegRef s of
        None \<Rightarrow> s
      | Some ffmpeg \<Rightarrow> progress (progress_status ffmpeg) (fst r) (snd r) s)"

text \<open>
  Lines 35--78. \<open>Inl\<close> is a thrown exception, \<open>Inr\<close> a return; both carry the state
  reached. On return \<open>ffmpegRef\<close> holds the engine.
\<close>

definition loadFFmpeg :: "JobEnv \<Rightarrow> Splitter \<Rightarrow> Splitter + Splitter" where
  "loadFFmpeg env s =
     (case ffmpegRef s of
        Some ffmpeg \<Rightarrow> Inr s
      | None \<Rightarrow>
          (let s1 = s\<lparr>job_status := SLoading, progressMessage := PreparingEngine\<rparr> in
           if \<not> script_loaded env then Inl s1
           else
             (let s2 = s1\<lparr>progressMessage := LoadingCore\<rparr> in
              if load_resolves env
              then Inr (s2\<lparr>ffmpegRef :=
                             Some \<lparr>progress_status = job_status s, fs = initial_fs env\<rparr>\<rparr>)
              else Inl (s2\<lparr>job_error := Some EngineLoadFailed, job_status := SIdle\<rparr>))))"

text \<open>Lines 108--111: the names derived from the file's name.\<close>

definition originalExtension_of :: "string \<Rightarrow> string" where
  "originalExtension_of n =
     (let e = toLowerCase (last (split (CHR ''.'') n)) in if e = [] then ''mp3'' else e)"

definition inputFileName_of :: "string \<Rightarrow> string" where
  "inputFileName_of n = ''input.'' @ originalExtension_of n"

definition splitter_baseName :: "string \<Rightarrow> string" where
  "splitter_baseName n = substring0 (lastIndexOf (CHR ''.'') n) n"

text \<open>
  The name the pattern \<^verbatim>\<open>${baseName}_%03d.${originalExtension}\<close> of line 111 stands
  for at index \<open>k\<close>.
\<close>

definition outputPattern :: "string \<Rightarrow> string \<Rightarrow> nat \<Rightarrow> string" where
  "outputPattern baseName ext k =
     baseName @ ''_'' @ padStart 3 (CHR ''0'') (toString k) @ ''.'' @ ext"

text \<open>Lines 113--122: the working area once the input is written and \<^verbatim>\<open>run\<close> has ended.\<close>

definition fs_after_run :: "JobEnv \<Rightarrow> File \<Rightarrow> (string \<times> nat list) list \<Rightarrow> (string \<times> nat list) list" where
  "fs_after_run env f entries =
     foldl (\<lambda>acc (n, d). FS_writeFile n d acc)
       (FS_writeFile (inputFileName_of (file_name f)) (file_data f) entries)
       (run_writes env)"

text \<open>Lines 133--137: the loop reading every result file.\<close>

fun read_results :: "string \<Rightarrow> (string \<times> nat list) list \<Rightarrow> string list \<Rightarrow> SplitFile list option" where
  "read_results ty entries [] = Some []"
| "read_results ty entries (fileName # rest) =
     (case FS_readFile fileName entries of
        None \<Rightarrow> None
      | Some data \<Rightarrow>
          (case read_results ty entries rest of
             None \<Rightarrow> None
           | Some blobs \<Rightarrow> Some (\<lparr>name = fileName, blob = \<lparr>blob_bytes = data, blob_type = ty\<rparr>\<rparr> # blobs)))"

text \<open>Line 144: \<^verbatim>\<open>resultFiles.forEach(f => ffmpeg.FS('unlink', f))\<close>; \<open>Inl\<close> when an
  \<^verbatim>\<open>unlink\<close> throws, with the working area as it then is.\<close>

fun unlink_each :: "string list \<Rightarrow> (string \<times> nat list) list \<Rightarrow> (string \<times> nat list) list + (string \<times> nat list) list" where
  "unlink_each [] entries = Inr entries"
| "unlink_each (n # ns) entries =
     (case FS_unlink n entries of
        None \<Rightarrow> Inl entries
      | Some entries' \<Rightarrow> unlink_each ns entries')"

text \<open>
  Lines 129--141: the message when nothing was produced, else the files read, sorted and
  stored. \<open>None\<close> when \<^verbatim>\<open>readFile\<close> throws.
\<close>

definition collect_results :: "File \<Rightarrow> string list \<Rightarrow> Splitter \<Rightarrow> Splitter option" where
  "collect_results f resultFiles s =
     (if resultFiles = [] then Some (s\<lparr>job_error := Some NoFilesProduced\<rparr>)
      else map_option
             (\<lambda>blobs. s\<lparr>splitFiles := sort_by (\<lambda>a b. localeCompare_numeric (name a) (name b)) blobs\<rparr>)
             (read_results (file_type f) (engine_fs s) resultFiles))"

text \<open>Lines 142--145: the input and the result files are unlinked and the job is done.\<close>

definition cleanup_and_finish :: "string \<Rightarrow> string list \<Rightarrow> Splitter \<Rightarrow> Splitter + Splitter" where
  "cleanup_and_finish inputFileName resultFiles s =
     (case FS_unlink inputFileName (engine_fs s) of
        None \<Rightarrow> Inl s
      | Some entries \<Rightarrow>
          (case unlink_each resultFiles entries of
             Inl entries' \<Rightarrow> Inl (set_engine_fs entries' s)
           | Inr entries' \<Rightarrow> Inr ((set_engine_fs entries' s)\<lparr>job_status := SDone\<rparr>)))"

text \<open>Lines 104--106: the job enters \<^verbatim>\<open>'processing'\<close>.\<close>

definition begin_processing :: "Splitter \<Rightarrow> Splitter" where
  "begin_processing s1 =
     s1\<lparr>job_status := SProcessing, progressMessage := PreparingFile, progressRatio := 0\<rparr>"

text \<open>
  Lines 113--122: the state of the component while \<^verbatim>\<open>run\<close> is in progress, once the
  engine has made the reports \<open>rs\<close>.
\<close>

definition while_running :: "JobEnv \<Rightarrow> File \<Rightarrow> Splitter \<Rightarrow> (real \<times> int) list \<Rightarrow> Splitter" where
  "while_running env f s2 rs =
     foldl (\<lambda>acc r. report_progress r acc)
       ((set_engine_fs (fs_after_run env f (engine_fs s2)) s2)\<lparr>progressMessage := SplittingAudio\<rparr>)
       rs"

text \<open>Lines 101--145, the body of the \<^verbatim>\<open>try\<close> block.\<close>

definition handleSplit_try :: "JobEnv \<Rightarrow> File \<Rightarrow> Splitter \<Rightarrow> Splitter + Splitter" where
  "handleSplit_try env f s =
     (case loadFFmpeg env s of
        Inl s' \<Rightarrow> Inl s'
      | Inr s1 \<Rightarrow>
          (let s2 = begin_processing s1;
               inputFileName = inputFileName_of (file_name f);
               baseName = splitter_baseName (file_name f)
           in if \<not> fetchFile_resolves env then Inl s2
              else
                (let s4 = while_running env f s2 (run_reports env)
                 in if \<not> run_resolves env then Inl s4
                    else
                      (let s5 = s4\<lparr>progressMessage := ReadingResults\<rparr>;
                           resultFiles = filter (\<lambda>n. startsWith n baseName) (FS_readdir (engine_fs s5))
                       in case collect_results f resultFiles s5 of
                            None \<Rightarrow> Inl s5
                          | Some s6 \<Rightarrow> cleanup_and_finish inputFileName resultFiles s6))))"

text \<open>Lines 87--151.\<close>

definition handleSplit :: "JobEnv \<Rightarrow> Splitter \<Rightarrow> Splitter" where
  "handleSplit env s =
     (case selectedFile s of
        None \<Rightarrow> s\<lparr>job_error := Some SelectFileFirst\<rparr>
      | Some f \<Rightarrow>
          if splitDuration s \<le> 0 then s\<lparr>job_error := Some DurationMustBePositive\<rparr>
          else
            (case handleSplit_try env f (s\<lparr>job_error := None, splitFiles := []\<rparr>) of
               Inl s' \<Rightarrow> s'\<lparr>job_error := Some ProcessingFailed, job_status := SIdle\<rparr>
             | Inr s' \<Rightarrow> s'))"

text \<open>The component as first rendered (lines 26--33).\<close>

definition splitter_init :: Splitter where
  "splitter_init = \<lparr>selectedFile = None, splitDuration = 25, job_status = SIdle, progressMessage = NoMessage,
                     progressRatio = 0, job_error = None, splitFiles = [], ffmpegRef = None\<rparr>"

text \<open>The working area a job starts from: the engine's, or a new engine's.\<close>

definition job_fs :: "JobEnv \<Rightarrow> Splitter \<Rightarrow> (string \<times> nat list) list" where
  "job_fs env s = (case ffmpegRef s of None \<Rightarrow> initial_fs env | Some ffmpeg \<Rightarrow> fs ffmpeg)"

subsection \<open>The component's events\<close>

text \<open>Lines 80--85 and 165--170.\<close>

definition handleFileSelect :: "File option \<Rightarrow> Splitter \<Rightarrow> Splitter" where
  "handleFileSelect f s = s\<lparr>selectedFile := f, splitFiles := [], job_error := None, job_status := SIdle\<rparr>"

definition handleReset :: "Splitter \<Rightarrow> Splitter" where
  "handleReset s = s\<lparr>selectedFile := None, splitFiles := [], job_error := None, job_status := SIdle\<rparr>"

text \<open>
  What the user does to the component: a file is chosen or dropped (lines 176--192), the
  duration field is edited (line 235), the split button is clicked (line 242, the
  surroundings of the job it starts given with it), the clear button is clicked (line
  223). A job is followed from the click to its end before the next event is taken.
\<close>

datatype SplitterEvent =
  FileSelected File
| DurationChanged real
| SplitClicked JobEnv
| ResetClicked

fun splitter_step :: "SplitterEvent \<Rightarrow> Splitter \<Rightarrow> Splitter" where
  "splitter_step (FileSelected f) s = handleFileSelect (Some f) s"
| "splitter_step (DurationChanged d) s = s\<lparr>splitDuration := d\<rparr>"
| "splitter_step (SplitClicked env) s = handleSplit env s"
| "splitter_step ResetClicked s = handleReset s"

definition splitter_run :: "SplitterEvent list \<Rightarrow> Splitter \<Rightarrow> Splitter" where
  "splitter_run es s = foldl (\<lambda>s e. splitter_step e s) s es"

text \<open>
  The status that the engine's callback closes over is not \<^verbatim>\<open>'processing'\<close>; and
  between two jobs, moreover, nothing is published and no job is processing.
\<close>

definition callback_blind :: "Splitter \<Rightarrow> bool" where
  "callback_blind s =
     (case ffmpegRef s of None \<Rightarrow> True | Some ffmpeg \<Rightarrow> progress_status ffmpeg \<noteq> SProcessing)"

definition between_jobs :: "Splitter \<Rightarrow> bool" where
  "between_jobs s = (callback_blind s \<and> progressRatio s = 0 \<and> job_status s \<noteq> SProcessing)"

section \<open>Properties of the recorder hook\<close>

subsection \<open>The name loop\<close>

text \<open>Decimal digits determine the number, so numbered names differ for different counters.\<close>

lemma digit_val_digit_char: "d < 10 \<Longrightarrow> digit_val (digit_char d) = d"
  by (simp add: digit_val_def digit_char_def)

lemma digits_value_snoc: "digits_value (ds @ [c]) = 10 * digits_value ds + digit_val c"
  by (simp add: digits_value_def)

lemma digits_value_toString: "digits_value (toString n) = n"
proof (induction n rule: toString.induct)
  case (1 n)
  show ?case
  proof (cases "n < 10")
    case True
    then show ?thesis
      by (subst toString.simps) (simp add: digits_value_def digit_val_digit_char)
  next
    case False
    with 1 show ?thesis
      by (subst toString.simps) (simp add: digits_value_snoc digit_val_digit_char)
  qed
qed

lemma toString_inj: "toString a = toString b \<Longrightarrow> a = b"
  by (metis digits_value_toString)

lemma numbered_name_inj: "numbered_name b e i = numbered_name b e j \<Longrightarrow> i = j"
  by (simp add: numbered_name_def toString_inj)

lemma finite_taken_above: "finite (taken_above b e prev c)"
proof -
  have "inj (numbered_name b e)"
    by (rule injI) (rule numbered_name_inj)
  then have "finite (numbered_name b e -` (name ` set prev))"
    by (intro finite_vimageI) simp_all
  moreover have "taken_above b e prev c \<subseteq> numbered_name b e -` (name ` set prev)"
    by (auto simp: taken_above_def)
  ultimately show ?thesis
    by (rule rev_finite_subset)
qed

lemma taken_above_step:
  "taken_above b e prev c =
     (if numbered_name b e (Suc c) \<in> name ` set prev then {Suc c} else {}) \<union> taken_above b e prev (Suc c)"
  by (auto simp: taken_above_def intro!: Suc_lessI)

lemma card_taken_above_step:
  "card (taken_above b e prev c) =
     (if numbered_name b e (Suc c) \<in> name ` set prev then 1 else 0) + card (taken_above b e prev (Suc c))"
proof -
  have "Suc c \<notin> taken_above b e prev (Suc c)"
    by (simp add: taken_above_def)
  then show ?thesis
    by (subst taken_above_step) (simp add: finite_taken_above)
qed

termination unique_name
proof (relation "measure (\<lambda>(b, e, prev, finalName, c).
          card (taken_above b e prev c) + (if finalName \<in> name ` set prev then 1 else 0))")
  show "wf (measure (\<lambda>(b, e, prev, finalName, c).
          card (taken_above b e prev c) + (if finalName \<in> name ` set prev then 1 else 0)))"
    by simp
next
  fix baseName fileExtension :: string and prev :: "SplitFile list" and finalName :: string and counter :: nat
  assume "list_ex (\<lambda>chunk. name chunk = finalName) prev"
  then have "finalName \<in> name ` set prev"
    by (auto simp: list_ex_iff)
  then show "((baseName, fileExtension, prev, numbered_name baseName fileExtension (counter + 1), counter + 1),
              (baseName, fileExtension, prev, finalName, counter))
             \<in> measure (\<lambda>(b, e, prev, finalName, c).
                  card (taken_above b e prev c) + (if finalName \<in> name ` set prev then 1 else 0))"
    by (simp add: card_taken_above_step [of baseName fileExtension prev counter])
qed

declare unique_name.simps [simp del]

lemma unique_name_fresh: "unique_name b e prev f c \<notin> name ` set prev"
proof (induction b e prev f c rule: unique_name.induct)
  case (1 b e prev f c)
  show ?case
  proof (cases "list_ex (\<lambda>chunk. name chunk = f) prev")
    case True
    with 1 show ?thesis by (subst unique_name.simps) simp
  next
    case False
    then show ?thesis
      by (subst unique_name.simps) (auto simp: list_ex_iff)
  qed
qed

lemma least_above_step:
  assumes "\<exists>k. c < k \<and> P k"
  shows "(LEAST k. c < k \<and> P k) = (if P (Suc c) then Suc c else (LEAST k. Suc c < k \<and> P k))"
proof (cases "P (Suc c)")
  case True
  then show ?thesis by (auto intro!: Least_equality)
next
  case False
  have "(\<lambda>k. c < k \<and> P k) = (\<lambda>k. Suc c < k \<and> P k)"
  proof
    fix k show "(c < k \<and> P k) = (Suc c < k \<and> P k)"
      using False by (cases "k = Suc c") auto
  qed
  with False show ?thesis by simp
qed

lemma exists_free_above:
  fixes prev :: "SplitFile list"
  shows "\<exists>k. c < k \<and> numbered_name b e k \<notin> name ` set prev"
proof (rule ccontr)
  assume "\<not> ?thesis"
  then have "{k. c < k} \<subseteq> taken_above b e prev c"
    by (auto simp: taken_above_def)
  then have "finite {k. c < k}"
    using finite_taken_above rev_finite_subset by blast
  then show False
    by (simp add: finite_nat_set_iff_bounded) (metis lessI less_SucI not_less_eq)
qed

lemma unique_name_least:
  "unique_name b e prev f c =
     (if f \<notin> name ` set prev then f
      else numbered_name b e (LEAST k. c < k \<and> numbered_name b e k \<notin> name ` set prev))"
proof (induction b e prev f c rule: unique_name.induct)
  case (1 b e prev f c)
  show ?case
  proof (cases "list_ex (\<lambda>chunk. name chunk = f) prev")
    case True
    then have f: "f \<in> name ` set prev" by (auto simp: list_ex_iff)
    have "unique_name b e prev f c = unique_name b e prev (numbered_name b e (c + 1)) (c + 1)"
      using True by (subst unique_name.simps) simp
    also have "\<dots> = (if numbered_name b e (Suc c) \<notin> name ` set prev then numbered_name b e (Suc c)
      else numbered_name b e (LEAST k. Suc c < k \<and> numbered_name b e k \<notin> name ` set prev))"
      using 1 [OF True] by simp
    also have "\<dots> = numbered_name b e (LEAST k. c < k \<and> numbered_name b e k \<notin> name ` set prev)"
      by (subst least_above_step [OF exists_free_above]) simp
    finally show ?thesis using f by simp
  next
    case False
    then show ?thesis
      by (subst unique_name.simps) (auto simp: list_ex_iff)
  qed
qed

subsection \<open>Filtering by index\<close>

lemma filter_index_below:
  "k < n \<Longrightarrow> map snd (filter (\<lambda>(index, chunk). index \<noteq> k) (enumerate n xs)) = xs"
  by (induction xs arbitrary: n) simp_all

lemma filter_index_nat:
  "map snd (filter (\<lambda>(index, chunk). index \<noteq> n + j) (enumerate n xs)) =
     (if j < length xs then take j xs @ drop (Suc j) xs else xs)"
proof (induction xs arbitrary: n j)
  case Nil
  then show ?case by simp
next
  case (Cons x xs)
  show ?case
  proof (cases j)
    case 0
    then show ?thesis by (simp add: filter_index_below)
  next
    case (Suc j')
    have "map snd (filter (\<lambda>(index, chunk). index \<noteq> Suc n + j') (enumerate (Suc n) xs)) =
          (if j' < length xs then take j' xs @ drop (Suc j') xs else xs)"
      by (rule Cons.IH)
    with Suc show ?thesis by simp
  qed
qed

lemma filter_index_int:
  "map snd (filter (\<lambda>(index, chunk). int index \<noteq> i) (enumerate 0 xs)) =
     (if 0 \<le> i \<and> i < int (length xs) then take (nat i) xs @ drop (Suc (nat i)) xs else xs)"
proof (cases "0 \<le> i")
  case True
  then have "(\<lambda>(index :: nat, chunk :: 'a). int index \<noteq> i) = (\<lambda>(index, chunk). index \<noteq> 0 + nat i)"
    by (auto simp: fun_eq_iff)
  then have "map snd (filter (\<lambda>(index, chunk). int index \<noteq> i) (enumerate 0 xs)) =
       (if nat i < length xs then take (nat i) xs @ drop (Suc (nat i)) xs else xs)"
    by (simp only: filter_index_nat)
  with True show ?thesis
    by (simp add: nat_less_iff)
next
  case False
  then have "(\<lambda>(index :: nat, chunk :: 'a). int index \<noteq> i) = (\<lambda>(index, chunk). True)"
    by (auto simp: fun_eq_iff)
  then show ?thesis
    using False by simp
qed

lemma recordedChunks_deleteSegment:
  "recordedChunks (deleteSegment i s) =
     (if 0 \<le> i \<and> i < int (length (recordedChunks s))
      then take (nat i) (recordedChunks s) @ drop (Suc (nat i)) (recordedChunks s)
      else recordedChunks s)"
  by (simp add: deleteSegment_def filter_index_int)

lemma set_drop_Suc_subset: "set (drop (Suc i) xs) \<subseteq> set (drop i xs)"
  by (rule set_drop_subset_set_drop) simp

lemma take_drop_disjoint: "distinct xs \<Longrightarrow> set (take i xs) \<inter> set (drop i xs) = {}"
  using distinct_append [of "take i xs" "drop i xs"] by simp

lemma distinct_take_drop: "distinct xs \<Longrightarrow> distinct (take i xs @ drop (Suc i) xs)"
  using set_drop_Suc_subset [of i xs] take_drop_disjoint [of xs i]
  by (simp add: distinct_take distinct_drop) blast

subsection \<open>What each operation does to the segment list\<close>

lemma cleanupAudioContext_fields [simp]:
  "status (cleanupAudioContext s) = status s"
  "recordedChunks (cleanupAudioContext s) = recordedChunks s"
  "error (cleanupAudioContext s) = error s"
  "mediaRecorderRef (cleanupAudioContext s) = mediaRecorderRef s"
  "streamRef (cleanupAudioContext s) = streamRef s"
  "segmentTimerRef (cleanupAudioContext s) = segmentTimerRef s"
  "segmentDurationRef (cleanupAudioContext s) = segmentDurationRef s"
  "recorders (cleanupAudioContext s) = recorders s"
  "live_streams (cleanupAudioContext s) = live_streams s"
  "intervals (cleanupAudioContext s) = intervals s"
  "next_handle (cleanupAudioContext s) = next_handle s"
  by (simp_all add: cleanupAudioContext_def cancelAnimationFrame_def Let_def)

lemma recorder_stop_fields [simp]:
  "status (recorder_stop rid s) = status s"
  "recordedChunks (recorder_stop rid s) = recordedChunks s"
  "error (recorder_stop rid s) = error s"
  "mediaRecorderRef (recorder_stop rid s) = mediaRecorderRef s"
  "streamRef (recorder_stop rid s) = streamRef s"
  "segmentTimerRef (recorder_stop rid s) = segmentTimerRef s"
  "segmentDurationRef (recorder_stop rid s) = segmentDurationRef s"
  "mimeTypeRef (recorder_stop rid s) = mimeTypeRef s"
  "live_streams (recorder_stop rid s) = live_streams s"
  "intervals (recorder_stop rid s) = intervals s"
  "next_handle (recorder_stop rid s) = next_handle s"
  "length (recorders (recorder_stop rid s)) = length (recorders s)"
  by (simp_all add: recorder_stop_def split: option.split)

lemma startNewSegment_fields [simp]:
  "status (startNewSegment now stream m s) = status s"
  "recordedChunks (startNewSegment now stream m s) = recordedChunks s"
  "error (startNewSegment now stream m s) = error s"
  "streamRef (startNewSegment now stream m s) = streamRef s"
  "segmentTimerRef (startNewSegment now stream m s) = segmentTimerRef s"
  "segmentDurationRef (startNewSegment now stream m s) = segmentDurationRef s"
  "live_streams (startNewSegment now stream m s) = live_streams s"
  "intervals (startNewSegment now stream m s) = intervals s"
  "next_handle (startNewSegment now stream m s) = next_handle s"
  by (simp_all add: startNewSegment_def)

lemma createNewSegment_fields [simp]:
  "status (createNewSegment now s) = status s"
  "recordedChunks (createNewSegment now s) = recordedChunks s"
  "error (createNewSegment now s) = error s"
  "streamRef (createNewSegment now s) = streamRef s"
  "segmentTimerRef (createNewSegment now s) = segmentTimerRef s"
  "segmentDurationRef (createNewSegment now s) = segmentDurationRef s"
  "live_streams (createNewSegment now s) = live_streams s"
  "intervals (createNewSegment now s) = intervals s"
  "next_handle (createNewSegment now s) = next_handle s"
  by (simp_all add: createNewSegment_def Let_def split: option.split)

lemma ondataavailable_fields [simp]:
  "status (ondataavailable rid d s) = status s"
  "recordedChunks (ondataavailable rid d s) = recordedChunks s"
  "error (ondataavailable rid d s) = error s"
  "segmentTimerRef (ondataavailable rid d s) = segmentTimerRef s"
  "segmentDurationRef (ondataavailable rid d s) = segmentDurationRef s"
  "intervals (ondataavailable rid d s) = intervals s"
  "next_handle (ondataavailable rid d s) = next_handle s"
  by (simp_all add: ondataavailable_def split: option.split)

lemma draw_fields [simp]:
  "status (draw s) = status s"
  "recordedChunks (draw s) = recordedChunks s"
  "error (draw s) = error s"
  "streamRef (draw s) = streamRef s"
  "segmentTimerRef (draw s) = segmentTimerRef s"
  "segmentDurationRef (draw s) = segmentDurationRef s"
  "mimeTypeRef (draw s) = mimeTypeRef s"
  "recorders (draw s) = recorders s"
  "live_streams (draw s) = live_streams s"
  "intervals (draw s) = intervals s"
  by (simp_all add: draw_def requestAnimationFrame_def)

lemma next_handle_draw: "next_handle s \<le> next_handle (draw s)"
  by (simp add: draw_def requestAnimationFrame_def)

lemma acquire_stream_fields [simp]:
  "status (acquire_stream s) = status s"
  "recordedChunks (acquire_stream s) = recordedChunks s"
  "error (acquire_stream s) = error s"
  "streamRef (acquire_stream s) = Some (next_handle s)"
  "segmentTimerRef (acquire_stream s) = segmentTimerRef s"
  "segmentDurationRef (acquire_stream s) = segmentDurationRef s"
  "mimeTypeRef (acquire_stream s) = mimeTypeRef s"
  "recorders (acquire_stream s) = recorders s"
  "intervals (acquire_stream s) = intervals s"
  "next_handle (acquire_stream s) = Suc (next_handle s)"
  by (simp_all add: acquire_stream_def getUserMedia_def)

lemma start_telemetry_fields [simp]:
  "status (start_telemetry s) = status s"
  "recordedChunks (start_telemetry s) = recordedChunks s"
  "error (start_telemetry s) = error s"
  "streamRef (start_telemetry s) = streamRef s"
  "segmentTimerRef (start_telemetry s) = segmentTimerRef s"
  "segmentDurationRef (start_telemetry s) = segmentDurationRef s"
  "mimeTypeRef (start_telemetry s) = mimeTypeRef s"
  "recorders (start_telemetry s) = recorders s"
  "intervals (start_telemetry s) = intervals s"
  by (simp_all add: start_telemetry_def)

lemma next_handle_start_telemetry: "next_handle s \<le> next_handle (start_telemetry s)"
  using next_handle_draw [of "s\<lparr>audioContextRef := True, analyserRef := True, sourceNodeRef := True\<rparr>"]
  by (simp add: start_telemetry_def)

lemma clear_segment_timer_fields [simp]:
  "status (clear_segment_timer s) = status s"
  "recordedChunks (clear_segment_timer s) = recordedChunks s"
  "error (clear_segment_timer s) = error s"
  "mediaRecorderRef (clear_segment_timer s) = mediaRecorderRef s"
  "streamRef (clear_segment_timer s) = streamRef s"
  "segmentDurationRef (clear_segment_timer s) = segmentDurationRef s"
  "recorders (clear_segment_timer s) = recorders s"
  "live_streams (clear_segment_timer s) = live_streams s"
  "next_handle (clear_segment_timer s) = next_handle s"
  by (simp_all add: clear_segment_timer_def clearInterval_def)

lemma release_stream_fields [simp]:
  "status (release_stream s) = status s"
  "recordedChunks (release_stream s) = recordedChunks s"
  "error (release_stream s) = error s"
  "mediaRecorderRef (release_stream s) = mediaRecorderRef s"
  "segmentTimerRef (release_stream s) = segmentTimerRef s"
  "segmentDurationRef (release_stream s) = segmentDurationRef s"
  "recorders (release_stream s) = recorders s"
  "intervals (release_stream s) = intervals s"
  "next_handle (release_stream s) = next_handle s"
  "streamRef (release_stream s) = None"
  by (simp_all add: release_stream_def stop_tracks_def split: option.split)

text \<open>The call that is not interrupted, written out.\<close>

lemma startRecording_unfold:
  "startRecording mimeType segmentDurationMinutes outcome now s =
     (let s0 = s\<lparr>error := None\<rparr> in
      if status s = Recording then s0
      else startRecording_resume mimeType segmentDurationMinutes outcome now
             (s0\<lparr>mimeTypeRef := mimeType, segmentDurationRef := segmentDurationMinutes\<rparr>))"
  by (simp add: startRecording_def startRecording_begin_def getUserMedia_settles_def Let_def)

lemma recordedChunks_startRecording_resume [simp]:
  "recordedChunks (startRecording_resume m d out now s) = recordedChunks s"
  by (simp add: startRecording_resume_def setInterval_def Let_def split: StartOutcome.split)

lemma recordedChunks_startRecording_begin [simp]:
  "recordedChunks (startRecording_begin m d s) = recordedChunks s"
  by (simp add: startRecording_begin_def Let_def)

lemma recordedChunks_getUserMedia_settles [simp]:
  "recordedChunks (getUserMedia_settles k out now s) = recordedChunks s"
  by (simp add: getUserMedia_settles_def split: prod.split)

lemma recordedChunks_startRecording [simp]:
  "recordedChunks (startRecording m d out now s) = recordedChunks s"
  by (simp add: startRecording_def)

lemma recordedChunks_stopRecording [simp]:
  "recordedChunks (stopRecording s) = recordedChunks s"
  by (simp add: stopRecording_def Let_def split: option.split)

lemma recordedChunks_splitSegment [simp]:
  "recordedChunks (splitSegment now s) = recordedChunks s"
  by (simp add: splitSegment_def setInterval_def clearInterval_def Let_def)

lemma recordedChunks_resetRecording [simp]:
  "recordedChunks (resetRecording s) = []"
  by (simp add: resetRecording_def Let_def)

lemma recordedChunks_dispatch_data [simp]:
  "recordedChunks (dispatch_data rid d s) = recordedChunks s"
  by (simp add: dispatch_data_def split: option.split)

lemma recordedChunks_dispatch_frame [simp]:
  "recordedChunks (dispatch_frame h s) = recordedChunks s"
  by (simp add: dispatch_frame_def)

lemma onstop_cases:
  "onstop chunks mimeType now s = Inr s'
   \<Longrightarrow> s' = s \<or> (\<exists>n. n \<notin> name ` set (recordedChunks s) \<and>
          s' = s\<lparr>recordedChunks := recordedChunks s @ [\<lparr>name = n, blob = new_Blob chunks mimeType\<rparr>]\<rparr>)"
  unfolding onstop_def Let_def
  by (simp split: if_splits option.splits) (use unique_name_fresh in blast)

lemma distinct_dispatch_stop:
  assumes "distinct (map name (recordedChunks s))"
  shows "distinct (map name (recordedChunks (dispatch_stop rid now s)))"
proof (cases "recorder_at s rid")
  case None
  with assms show ?thesis by (simp add: dispatch_stop_def)
next
  case (Some r)
  show ?thesis
  proof (cases "mr_stop_pending r")
    case False
    with Some assms show ?thesis by (simp add: dispatch_stop_def)
  next
    case True
    define s1 where "s1 = s\<lparr>recorders := (recorders s)[rid := r\<lparr>mr_stop_pending := False\<rparr>]\<rparr>"
    have rc: "recordedChunks s1 = recordedChunks s" by (simp add: s1_def)
    show ?thesis
    proof (cases "onstop (recorderChunks r) (mr_mimeType r) now s1")
      case (Inl e)
      with Some True assms rc show ?thesis
        by (simp add: dispatch_stop_def Let_def s1_def)
    next
      case (Inr s2)
      from onstop_cases [OF Inr] rc assms have "distinct (map name (recordedChunks s2))"
        by auto
      with Some True Inr show ?thesis
        by (simp add: dispatch_stop_def Let_def s1_def)
    qed
  qed
qed

lemma distinct_deleteSegment:
  assumes "distinct (map name (recordedChunks s))"
  shows "distinct (map name (recordedChunks (deleteSegment i s)))"
proof -
  have "distinct (take (nat i) (map name (recordedChunks s)) @ drop (Suc (nat i)) (map name (recordedChunks s)))"
    using assms by (rule distinct_take_drop)
  with assms show ?thesis
    by (simp add: recordedChunks_deleteSegment take_map drop_map)
qed

lemma distinct_step:
  "distinct (map name (recordedChunks s)) \<Longrightarrow> distinct (map name (recordedChunks (step e s)))"
  by (cases e) (simp_all add: distinct_deleteSegment distinct_dispatch_stop)

lemma distinct_run:
  "distinct (map name (recordedChunks s)) \<Longrightarrow> distinct (map name (recordedChunks (run es s)))"
  unfolding run_def by (induction es arbitrary: s) (simp_all add: distinct_step)

subsection \<open>The shape of a segment name\<close>

lemma split_unfold:
  "split sep zs = takeWhile (\<lambda>c. c \<noteq> sep) zs #
     (case dropWhile (\<lambda>c. c \<noteq> sep) zs of [] \<Rightarrow> [] | x # r \<Rightarrow> split sep r)"
  by (induction zs) simp_all

lemma fileExtension_of_eq:
  "fileExtension_of m =
     (case dropWhile (\<lambda>c. c \<noteq> CHR ''/'') m of
        [] \<Rightarrow> None
      | x # r \<Rightarrow> Some (takeWhile (\<lambda>c. c \<noteq> CHR '';'') (takeWhile (\<lambda>c. c \<noteq> CHR ''/'') r)))"
proof (cases "dropWhile (\<lambda>c. c \<noteq> CHR ''/'') m")
  case Nil
  then have "split (CHR ''/'') m = [takeWhile (\<lambda>c. c \<noteq> CHR ''/'') m]"
    by (subst split_unfold) (simp del: dropWhile_eq_Nil_conv)
  with Nil show ?thesis
    by (simp add: fileExtension_of_def del: dropWhile_eq_Nil_conv)
next
  case (Cons x r)
  then show ?thesis
    by (simp add: fileExtension_of_def split_unfold [of "CHR ''/''" m]
        split_unfold [of "CHR ''/''" r] split_unfold [of "CHR '';''" "takeWhile (\<lambda>c. c \<noteq> CHR ''/'') r"])
qed

lemma is_digit_digit_char: "d < 10 \<Longrightarrow> is_digit (digit_char d)"
  by (simp add: is_digit_def digit_char_def)

lemma toString_digits: "list_all is_digit (toString n)"
proof (induction n rule: toString.induct)
  case (1 n)
  show ?case
  proof (cases "n < 10")
    case True
    then show ?thesis by (subst toString.simps) (simp add: is_digit_digit_char)
  next
    case False
    with 1 show ?thesis by (subst toString.simps) (simp add: is_digit_digit_char)
  qed
qed

lemma length_toString_1: "n < 10 \<Longrightarrow> length (toString n) = 1"
  by (subst toString.simps) simp

lemma length_toString_2: "10 \<le> n \<Longrightarrow> n < 100 \<Longrightarrow> length (toString n) = 2"
  by (subst toString.simps) (simp add: length_toString_1)

lemma length_toString_3: "100 \<le> n \<Longrightarrow> n < 1000 \<Longrightarrow> length (toString n) = 3"
  by (subst toString.simps) (simp add: length_toString_2)

lemma length_toString_4: "1000 \<le> n \<Longrightarrow> n < 10000 \<Longrightarrow> length (toString n) = 4"
  by (subst toString.simps) (simp add: length_toString_3)

lemma digits_value_zeros: "digits_value (replicate k (CHR ''0'') @ ds) = digits_value ds"
proof -
  have "foldl (\<lambda>a c. 10 * a + digit_val c) 0 (replicate k (CHR ''0'')) = 0"
    by (induction k) (simp_all add: digit_val_def)
  then show ?thesis by (simp add: digits_value_def)
qed

lemma pad2:
  assumes "n < 100"
  shows "length (padStart 2 (CHR ''0'') (toString n)) = 2"
    and "list_all is_digit (padStart 2 (CHR ''0'') (toString n))"
    and "digits_value (padStart 2 (CHR ''0'') (toString n)) = n"
proof -
  have "length (toString n) = 1 \<or> length (toString n) = 2"
    using assms length_toString_1 [of n] length_toString_2 [of n] by (cases "n < 10") auto
  then show "length (padStart 2 (CHR ''0'') (toString n)) = 2"
    by (auto simp: padStart_def)
  show "list_all is_digit (padStart 2 (CHR ''0'') (toString n))"
    using toString_digits [of n] by (auto simp: padStart_def list_all_iff is_digit_def)
  show "digits_value (padStart 2 (CHR ''0'') (toString n)) = n"
    by (simp add: padStart_def digits_value_zeros digits_value_toString)
qed

lemma baseName_of_format:
  assumes "1000 \<le> getFullYear now" "getFullYear now \<le> 9999" "getMonth now \<le> 11"
    "getDate now \<le> 31" "getHours now \<le> 23" "getMinutes now \<le> 59"
  shows "length (baseName_of now) = 12 \<and> list_all is_digit (baseName_of now) \<and>
         digits_value (take 4 (baseName_of now)) = getFullYear now \<and>
         digits_value (take 2 (drop 4 (baseName_of now))) = getMonth now + 1 \<and>
         digits_value (take 2 (drop 6 (baseName_of now))) = getDate now \<and>
         digits_value (take 2 (drop 8 (baseName_of now))) = getHours now \<and>
         digits_value (drop 10 (baseName_of now)) = getMinutes now"
proof -
  have y: "length (toString (getFullYear now)) = 4"
    using assms by (intro length_toString_4) simp_all
  have m: "getMonth now + 1 < 100" and d: "getDate now < 100" and h: "getHours now < 100"
    and mi: "getMinutes now < 100"
    using assms by simp_all
  show ?thesis
    using y pad2 [OF m] pad2 [OF d] pad2 [OF h] pad2 [OF mi] toString_digits [of "getFullYear now"]
    by (simp add: baseName_of_def Let_def digits_value_toString)
qed

lemma unique_name_shape:
  "unique_name b e prev (b @ ''.'' @ e) 1 = b @ ''.'' @ e \<or>
   (\<exists>k\<ge>2. unique_name b e prev (b @ ''.'' @ e) 1 = b @ ''_'' @ toString k @ ''.'' @ e)"
proof (cases "b @ ''.'' @ e \<in> name ` set prev")
  case False
  then show ?thesis by (simp add: unique_name_least)
next
  case True
  obtain k where k: "1 < k \<and> numbered_name b e k \<notin> name ` set prev"
    using exists_free_above [of 1 b e prev] by blast
  define l where "l = (LEAST k. 1 < k \<and> numbered_name b e k \<notin> name ` set prev)"
  have "1 < l \<and> numbered_name b e l \<notin> name ` set prev"
    unfolding l_def using k by (rule LeastI)
  then have "2 \<le> l" by simp
  moreover have "unique_name b e prev (b @ ''.'' @ e) 1 = numbered_name b e l"
    using True by (simp add: unique_name_least l_def)
  ultimately show ?thesis
    by (auto simp: numbered_name_def)
qed

subsection \<open>The auto-split timer\<close>

lemma armed_init: "armed init"
  by (simp add: armed_def init_def)

lemma armed_cases:
  assumes "armed s"
  obtains (none) "intervals s = []"
  | (one) h a p where "intervals s = [(h, a, p)]" "segmentTimerRef s = Some h" "0 < h"
  using assms unfolding armed_def by (auto split: if_splits)

lemma clear_segment_timer_intervals:
  "armed s \<Longrightarrow> intervals (clear_segment_timer s) = []"
  by (erule armed_cases) (simp_all add: clear_segment_timer_def clearInterval_def truthy_def)

lemma armed_cong:
  assumes "armed s"
    and "status s' = status s" "segmentDurationRef s' = segmentDurationRef s"
    and "intervals s' = intervals s" "segmentTimerRef s' = segmentTimerRef s"
    and "next_handle s \<le> next_handle s'"
  shows "armed s'"
  using assms unfolding armed_def by (auto split: if_splits)

lemma armed_idle:
  assumes "0 < next_handle s'" "intervals s' = []" "status s' \<noteq> Recording \<or> \<not> 0 < segmentDurationRef s'"
  shows "armed s'"
  using assms unfolding armed_def by auto

lemma armed_createNewSegment: "armed s \<Longrightarrow> armed (createNewSegment now s)"
  by (erule armed_cong) simp_all

lemma armed_stopRecording: "armed s \<Longrightarrow> armed (stopRecording s)"
proof -
  assume a: "armed s"
  show ?thesis
  proof (cases "mediaRecorderRef s")
    case None
    with a show ?thesis by (simp add: stopRecording_def)
  next
    case (Some rid)
    show ?thesis
    proof (cases "status s = Recording")
      case False
      with a Some show ?thesis by (simp add: stopRecording_def)
    next
      case True
      have c: "armed (cleanupAudioContext s)"
        using a by (rule armed_cong) simp_all
      have "0 < next_handle s"
        using a by (simp add: armed_def)
      with True Some clear_segment_timer_intervals [OF c] show ?thesis
        by (intro armed_idle) (simp_all add: stopRecording_def Let_def)
    qed
  qed
qed

lemma armed_resetRecording: "armed s \<Longrightarrow> armed (resetRecording s)"
proof -
  assume a: "armed s"
  define s1 where "s1 = (if status s = Recording then stopRecording s else cleanupAudioContext s)"
  define s3 where "s3 = release_stream (s1\<lparr>status := Idle, recordedChunks := [], mediaRecorderRef := None\<rparr>)"
  have "armed (cleanupAudioContext s)"
    using a by (rule armed_cong) simp_all
  then have a1: "armed s1"
    unfolding s1_def using armed_stopRecording [OF a] by simp
  from a1 have n: "0 < next_handle s1"
    by (simp add: armed_def)
  from a1 have w: "intervals s1 = [] \<or>
      (\<exists>h a p. intervals s1 = [(h, a, p)] \<and> segmentTimerRef s1 = Some h \<and> 0 < h)"
    by (rule armed_cases) auto
  have "intervals s3 = intervals s1" "segmentTimerRef s3 = segmentTimerRef s1"
    "next_handle s3 = next_handle s1"
    by (simp_all add: s3_def)
  with w have "intervals (clear_segment_timer s3) = []"
    by (auto simp: clear_segment_timer_def clearInterval_def truthy_def)
  moreover have "resetRecording s = (clear_segment_timer s3)\<lparr>error := None\<rparr>"
    by (simp add: resetRecording_def Let_def s1_def s3_def)
  moreover have "next_handle (clear_segment_timer s3) = next_handle s1"
    "status (clear_segment_timer s3) = Idle"
    by (simp_all add: s3_def)
  ultimately show ?thesis
    using n by (intro armed_idle) simp_all
qed

lemma splitSegment_armed_result:
  assumes a: "armed s" and r: "status s = Recording" and p: "0 < segmentDurationRef s"
  shows "splitSegment now s =
           (createNewSegment now s)
             \<lparr>intervals := [(next_handle s, ms now, timer_delay (segmentDurationRef s * 60 * 1000))],
              next_handle := next_handle s + 1,
              segmentTimerRef := Some (next_handle s)\<rparr>"
proof -
  from a r p obtain h a0 where h: "intervals s = [(h, a0, timer_delay (segmentDurationRef s * 60 * 1000))]"
    "segmentTimerRef s = Some h" "0 < h"
    by (auto simp: armed_def)
  then show ?thesis
    using r p by (simp add: splitSegment_def Let_def truthy_def clearInterval_def setInterval_def)
qed

lemma armed_splitSegment: "armed s \<Longrightarrow> armed (splitSegment now s)"
proof -
  assume a: "armed s"
  show ?thesis
  proof (cases "status s = Recording")
    case False
    with a show ?thesis by (simp add: splitSegment_def)
  next
    case True
    show ?thesis
    proof (cases "0 < segmentDurationRef s")
      case True
      with a \<open>status s = Recording\<close> show ?thesis
        by (simp add: splitSegment_armed_result armed_def)
    next
      case False
      with a True have "intervals s = []"
        by (simp add: armed_def)
      with a True False show ?thesis
        by (simp add: splitSegment_def Let_def clearInterval_def armed_def)
    qed
  qed
qed

lemma armed_startRecording: "armed s \<Longrightarrow> armed (startRecording m d out now s)"
proof -
  assume a: "armed s"
  show ?thesis
  proof (cases "status s = Recording")
    case True
    then have "startRecording m d out now s = s\<lparr>error := None\<rparr>"
      by (simp add: startRecording_unfold)
    moreover have "armed (s\<lparr>error := None\<rparr>)"
      using a by (rule armed_cong) simp_all
    ultimately show ?thesis by simp
  next
    case False
    with a have i: "intervals s = []" and n: "0 < next_handle s"
      by (simp_all add: armed_def)
    define s1 where "s1 = s\<lparr>error := None, mimeTypeRef := m, segmentDurationRef := d\<rparr>"
    define s2 where "s2 = start_telemetry (acquire_stream s1)"
    have s2: "intervals s2 = []" "status s2 = status s" "0 < next_handle s2"
      "streamRef s2 = Some (next_handle s)" "segmentDurationRef s2 = d"
      using i n next_handle_start_telemetry [of "acquire_stream s1"]
      by (simp_all add: s2_def s1_def)
    show ?thesis
    proof (cases out)
      case (GetUserMediaRejects err)
      with False i n show ?thesis
        by (intro armed_idle) (simp_all add: startRecording_unfold startRecording_resume_def)
    next
      case (AudioContextThrows err)
      with False i n show ?thesis
        by (intro armed_idle) (simp_all add: startRecording_unfold startRecording_resume_def)
    next
      case (MediaRecorderThrows err)
      with False s2 show ?thesis
        by (intro armed_idle)
          (simp_all add: startRecording_unfold startRecording_resume_def s2_def s1_def)
    next
      case SetupSucceeds
      with False s2 show ?thesis
        by (simp add: startRecording_unfold startRecording_resume_def Let_def setInterval_def
            armed_def s2_def [symmetric] s1_def [symmetric])
    qed
  qed
qed

lemma armed_dispatch_data: "armed s \<Longrightarrow> armed (dispatch_data rid d s)"
  by (erule armed_cong) (simp_all add: dispatch_data_def split: option.split)

lemma armed_dispatch_frame: "armed s \<Longrightarrow> armed (dispatch_frame h s)"
proof (erule armed_cong)
  show "next_handle s \<le> next_handle (dispatch_frame h s)"
    using next_handle_draw [of "s\<lparr>frame_requests := filter (\<lambda>k. k \<noteq> h) (frame_requests s)\<rparr>"]
    by (simp add: dispatch_frame_def)
qed (simp_all add: dispatch_frame_def)

lemma onstop_fields:
  assumes "onstop chunks m now s = Inr s'"
  shows "status s' = status s" "segmentDurationRef s' = segmentDurationRef s"
    "intervals s' = intervals s" "segmentTimerRef s' = segmentTimerRef s"
    "next_handle s' = next_handle s" "error s' = error s"
  using assms by (auto simp: onstop_def Let_def split: if_splits option.splits)

lemma armed_dispatch_stop: "armed s \<Longrightarrow> armed (dispatch_stop rid now s)"
proof (erule armed_cong)
  show "status (dispatch_stop rid now s) = status s"
    by (auto simp: dispatch_stop_def Let_def onstop_fields split: option.split sum.split)
  show "segmentDurationRef (dispatch_stop rid now s) = segmentDurationRef s"
    by (auto simp: dispatch_stop_def Let_def onstop_fields split: option.split sum.split)
  show "intervals (dispatch_stop rid now s) = intervals s"
    by (auto simp: dispatch_stop_def Let_def onstop_fields split: option.split sum.split)
  show "segmentTimerRef (dispatch_stop rid now s) = segmentTimerRef s"
    by (auto simp: dispatch_stop_def Let_def onstop_fields split: option.split sum.split)
  show "next_handle s \<le> next_handle (dispatch_stop rid now s)"
    by (auto simp: dispatch_stop_def Let_def onstop_fields split: option.split sum.split)
qed

lemma armed_deleteSegment: "armed s \<Longrightarrow> armed (deleteSegment i s)"
  by (erule armed_cong) (simp_all add: deleteSegment_def)

lemma armed_step: "armed s \<Longrightarrow> sequential e \<Longrightarrow> armed (step e s)"
  by (cases e)
    (simp_all add: armed_startRecording armed_stopRecording armed_splitSegment armed_deleteSegment
      armed_resetRecording armed_createNewSegment armed_dispatch_data armed_dispatch_stop
      armed_dispatch_frame)

lemma armed_run: "armed s \<Longrightarrow> list_all sequential es \<Longrightarrow> armed (run es s)"
  unfolding run_def by (induction es arbitrary: s) (simp_all add: armed_step)

text \<open>
  A delay that is not negative and below \<open>2\<^sup>3\<^sup>1\<close> is only truncated to whole
  milliseconds.
\<close>

lemma timer_delay_in_range:
  assumes "0 \<le> x" "x < 2147483648"
  shows "timer_delay x = real_of_int \<lfloor>x\<rfloor>"
proof -
  have "0 \<le> \<lfloor>x\<rfloor>" "\<lfloor>x\<rfloor> < 2147483648"
    using assms by (simp_all add: floor_less_iff)
  then show ?thesis
    using assms(1) by (simp add: timer_delay_def to_long_def Let_def)
qed

text \<open>
  In a session of sequential events the timer is as claim C4 has it: while the session
  records with a period of \<open>P > 0\<close> minutes one interval of that period runs; a manual
  split at \<open>now\<close> replaces it by one armed at \<open>ms now\<close>, and until one period after
  \<open>ms now\<close> no interval calls back.
\<close>

lemma split_rearms_timer_when_sequential:
  assumes "list_all sequential es"
    and "status (run es init) = Recording"
    and "segmentDurationRef (run es init) = P"
    and "0 < P"
  shows "\<exists>h0 a0 h.
           intervals (run es init) = [(h0, a0, timer_delay (P * 60 * 1000))] \<and>
           intervals (splitSegment now (run es init)) = [(h, ms now, timer_delay (P * 60 * 1000))] \<and>
           h \<noteq> h0 \<and>
           segmentTimerRef (splitSegment now (run es init)) = Some h \<and>
           status (splitSegment now (run es init)) = Recording \<and>
           (\<forall>k t. ms t < ms now + timer_delay (P * 60 * 1000) \<longrightarrow>
              step (IntervalFires k t) (splitSegment now (run es init)) =
              splitSegment now (run es init))"
proof -
  define s where "s = run es init"
  have a: "armed s"
    unfolding s_def using armed_init assms(1) by (rule armed_run)
  from assms have r: "status s = Recording" and p: "0 < segmentDurationRef s"
    and P: "segmentDurationRef s = P"
    by (simp_all add: s_def)
  from a r p obtain h0 a0 where h0:
    "intervals s = [(h0, a0, timer_delay (segmentDurationRef s * 60 * 1000))]"
    "h0 < next_handle s"
    by (auto simp: armed_def)
  have "splitSegment now s =
           (createNewSegment now s)
             \<lparr>intervals := [(next_handle s, ms now, timer_delay (segmentDurationRef s * 60 * 1000))],
              next_handle := next_handle s + 1,
              segmentTimerRef := Some (next_handle s)\<rparr>"
    using a r p by (rule splitSegment_armed_result)
  then have i: "intervals (splitSegment now s) = [(next_handle s, ms now, timer_delay (P * 60 * 1000))]"
    and "segmentTimerRef (splitSegment now s) = Some (next_handle s)"
    and "status (splitSegment now s) = Recording"
    using r P by simp_all
  moreover have "step (IntervalFires k t) (splitSegment now s) = splitSegment now s"
    if "ms t < ms now + timer_delay (P * 60 * 1000)" for k t
    using that by (simp add: i first_callback_def)
  ultimately show ?thesis
    using h0 P unfolding s_def [symmetric] by auto
qed

subsection \<open>The stream and the sampling loop\<close>

lemma released_init: "released init"
  by (simp add: released_def init_def)

lemma cleanupAudioContext_frames:
  assumes "frame_requests s = [] \<or>
       (\<exists>h. frame_requests s = [h] \<and> animationFrameIdRef s = Some h \<and> 0 < h)"
  shows "frame_requests (cleanupAudioContext s) = []"
  using assms by (auto simp: cleanupAudioContext_def cancelAnimationFrame_def truthy_def Let_def)

lemma release_stream_live:
  assumes "live_streams s = [] \<or> (\<exists>h. live_streams s = [h] \<and> streamRef s = Some h)"
  shows "live_streams (release_stream s) = []"
  using assms by (auto simp: release_stream_def stop_tracks_def split: option.split)

lemma frame_and_stream_fields [simp]:
  "frame_requests (clear_segment_timer s) = frame_requests s"
  "frame_requests (recorder_stop rid s) = frame_requests s"
  "frame_requests (release_stream s) = frame_requests s"
  "frame_requests (startNewSegment now stream m s) = frame_requests s"
  "frame_requests (createNewSegment now s) = frame_requests s"
  "frame_requests (acquire_stream s) = frame_requests s"
  "animationFrameIdRef (createNewSegment now s) = animationFrameIdRef s"
  "animationFrameIdRef (acquire_stream s) = animationFrameIdRef s"
  "live_streams (acquire_stream s) = live_streams s @ [next_handle s]"
  "live_streams (start_telemetry s) = live_streams s"
  "analyserRef (acquire_stream s) = analyserRef s"
  by (simp_all add: clear_segment_timer_def clearInterval_def recorder_stop_def release_stream_def
      stop_tracks_def startNewSegment_def createNewSegment_def acquire_stream_def getUserMedia_def
      start_telemetry_def Let_def split: option.split)

lemma start_telemetry_frames:
  "frame_requests (start_telemetry s) = frame_requests s @ [next_handle s] \<and>
   animationFrameIdRef (start_telemetry s) = Some (next_handle s) \<and>
   next_handle (start_telemetry s) = Suc (next_handle s)"
  by (simp add: start_telemetry_def draw_def requestAnimationFrame_def)

lemma mediaRecorderRef_createNewSegment:
  "mediaRecorderRef s \<noteq> None \<Longrightarrow> mediaRecorderRef (createNewSegment now s) \<noteq> None"
  by (auto simp: createNewSegment_def startNewSegment_def Let_def split: option.split)

lemma released_cong:
  assumes "released s"
    and "status s' = status s" "frame_requests s' = frame_requests s"
    and "animationFrameIdRef s' = animationFrameIdRef s" "live_streams s' = live_streams s"
    and "streamRef s' = streamRef s" "next_handle s \<le> next_handle s'"
    and "mediaRecorderRef s \<noteq> None \<Longrightarrow> mediaRecorderRef s' \<noteq> None"
  shows "released s'"
  using assms unfolding released_def by (auto split: if_splits)

lemma released_quiet:
  assumes "0 < next_handle s'" "status s' \<noteq> Recording" "frame_requests s' = []"
    "live_streams s' = []" "streamRef s' = None"
  shows "released s'"
  using assms unfolding released_def by simp

lemma released_createNewSegment: "released s \<Longrightarrow> released (createNewSegment now s)"
  by (erule released_cong) (simp_all add: mediaRecorderRef_createNewSegment)

lemma released_stopRecording: "released s \<Longrightarrow> released (stopRecording s)"
proof -
  assume a: "released s"
  show ?thesis
  proof (cases "mediaRecorderRef s")
    case None
    with a show ?thesis by (simp add: stopRecording_def)
  next
    case (Some rid)
    show ?thesis
    proof (cases "status s = Recording")
      case False
      with a Some show ?thesis by (simp add: stopRecording_def)
    next
      case True
      from a have f: "frame_requests (cleanupAudioContext s) = []"
        by (intro cleanupAudioContext_frames) (simp add: released_def)
      define s3 where "s3 = (let s2 = clear_segment_timer (cleanupAudioContext s) in
          if map_option mr_state (recorder_at s2 rid) = Some RecorderRecording
          then recorder_stop rid s2 else s2)"
      have s3: "live_streams s3 = live_streams s" "streamRef s3 = streamRef s"
        "frame_requests s3 = []" "next_handle s3 = next_handle s"
        using f by (simp_all add: s3_def Let_def)
      from a have "live_streams (release_stream s3) = []"
        by (intro release_stream_live) (simp add: released_def s3)
      moreover have "stopRecording s = (release_stream s3)\<lparr>status := Stopped\<rparr>"
        using True Some by (simp add: stopRecording_def s3_def Let_def)
      moreover have "0 < next_handle s"
        using a by (simp add: released_def)
      ultimately show ?thesis
        by (intro released_quiet) (simp_all add: s3)
    qed
  qed
qed

lemma released_resetRecording: "released s \<Longrightarrow> released (resetRecording s)"
proof -
  assume a: "released s"
  define s1 where "s1 = (if status s = Recording then stopRecording s else cleanupAudioContext s)"
  have n: "0 < next_handle s1" and f: "frame_requests s1 = []" and l: "live_streams s1 = []"
  proof -
    show "0 < next_handle s1"
    proof (cases "status s = Recording")
      case True
      with released_stopRecording [OF a] show ?thesis by (simp add: s1_def released_def)
    next
      case False
      with a show ?thesis by (simp add: s1_def released_def)
    qed
    show "frame_requests s1 = []"
    proof (cases "status s = Recording")
      case True
      with a obtain rid where rid: "mediaRecorderRef s = Some rid"
        by (auto simp: released_def)
      then have "status (stopRecording s) = Stopped"
        using True by (simp add: stopRecording_def Let_def)
      with released_stopRecording [OF a] True show ?thesis
        by (simp add: s1_def released_def)
    next
      case False
      with a show ?thesis
        by (simp add: s1_def released_def cleanupAudioContext_frames)
    qed
    show "live_streams s1 = []"
    proof (cases "status s = Recording")
      case True
      with a obtain rid where rid: "mediaRecorderRef s = Some rid"
        by (auto simp: released_def)
      then have "status (stopRecording s) = Stopped"
        using True by (simp add: stopRecording_def Let_def)
      with released_stopRecording [OF a] True show ?thesis
        by (simp add: s1_def released_def)
    next
      case False
      with a show ?thesis
        by (simp add: s1_def released_def)
    qed
  qed
  have "resetRecording s =
      (clear_segment_timer (release_stream
         (s1\<lparr>status := Idle, recordedChunks := [], mediaRecorderRef := None\<rparr>)))\<lparr>error := None\<rparr>"
    by (simp add: resetRecording_def Let_def s1_def)
  moreover have "live_streams (release_stream
         (s1\<lparr>status := Idle, recordedChunks := [], mediaRecorderRef := None\<rparr>)) = []"
    by (intro release_stream_live) (simp add: l)
  ultimately show ?thesis
    using n f by (intro released_quiet) simp_all
qed

lemma released_splitSegment: "released s \<Longrightarrow> released (splitSegment now s)"
proof (cases "status s = Recording")
  case False
  then show "released s \<Longrightarrow> released (splitSegment now s)"
    by (simp add: splitSegment_def)
next
  case True
  assume "released s"
  then have "released (createNewSegment now s)"
    by (rule released_createNewSegment)
  then show "released (splitSegment now s)"
    by (rule released_cong)
      (use True in \<open>simp_all add: splitSegment_def Let_def setInterval_def clearInterval_def\<close>)
qed

lemma released_startRecording:
  assumes a: "released s" and o: "no_partial_start (StartRecording m d out now)"
  shows "released (startRecording m d out now s)"
proof (cases "status s = Recording")
  case True
  then have "startRecording m d out now s = s\<lparr>error := None\<rparr>"
    by (simp add: startRecording_unfold)
  moreover have "released (s\<lparr>error := None\<rparr>)"
    using a by (rule released_cong) simp_all
  ultimately show ?thesis by simp
next
  case False
  with a have q: "frame_requests s = []" "live_streams s = []" "streamRef s = None" "0 < next_handle s"
    by (simp_all add: released_def)
  show ?thesis
  proof (cases out)
    case (GetUserMediaRejects err)
    with False q show ?thesis
      by (intro released_quiet) (simp_all add: startRecording_unfold startRecording_resume_def)
  next
    case (AudioContextThrows err)
    with o show ?thesis by simp
  next
    case (MediaRecorderThrows err)
    with o show ?thesis by simp
  next
    case SetupSucceeds
    define s1 where "s1 = s\<lparr>error := None, mimeTypeRef := m, segmentDurationRef := d\<rparr>"
    define s2 where "s2 = start_telemetry (acquire_stream s1)"
    have s2: "frame_requests s2 = [Suc (next_handle s)]"
      "animationFrameIdRef s2 = Some (Suc (next_handle s))"
      "next_handle s2 = Suc (Suc (next_handle s))"
      "live_streams s2 = [next_handle s]" "streamRef s2 = Some (next_handle s)"
      using q start_telemetry_frames [of "acquire_stream s1"]
      by (simp_all add: s2_def s1_def)
    define s4 where "s4 = (startNewSegment now (next_handle s) m s2)\<lparr>status := Recording\<rparr>"
    have s4: "released s4"
      using q by (simp add: released_def s4_def s2 startNewSegment_def)
    have "startRecording m d out now s =
            (if d > 0 then (case setInterval (d * 60 * 1000) now s4 of
                              (h, s5) \<Rightarrow> s5\<lparr>segmentTimerRef := Some h\<rparr>)
             else s4)"
      using SetupSucceeds False
      by (simp add: startRecording_unfold startRecording_resume_def Let_def
          s1_def [symmetric] s2_def [symmetric] s2 s4_def)
    moreover have "released (case setInterval (d * 60 * 1000) now s4 of
                              (h, s5) \<Rightarrow> s5\<lparr>segmentTimerRef := Some h\<rparr>)"
      using s4 by (rule released_cong) (simp_all add: setInterval_def)
    ultimately show ?thesis
      using s4 by simp
  qed
qed

lemma released_dispatch_frame: "released s \<Longrightarrow> released (dispatch_frame h s)"
proof (cases "h \<in> set (frame_requests s)")
  case False
  then show "released s \<Longrightarrow> released (dispatch_frame h s)"
    by (simp add: dispatch_frame_def)
next
  case True
  assume a: "released s"
  with True have fr: "frame_requests s = [h]" and rec: "status s = Recording"
    and m: "mediaRecorderRef s \<noteq> None"
    by (auto simp: released_def split: if_splits)
  from a rec m fr show "released (dispatch_frame h s)"
    by (auto simp: released_def dispatch_frame_def draw_def requestAnimationFrame_def)
qed

lemma released_dispatch_data: "released s \<Longrightarrow> released (dispatch_data rid d s)"
  by (erule released_cong)
    (simp_all add: dispatch_data_def ondataavailable_def split: option.split)

lemma onstop_more_fields:
  assumes "onstop chunks m now s = Inr s'"
  shows "frame_requests s' = frame_requests s" "animationFrameIdRef s' = animationFrameIdRef s"
    "live_streams s' = live_streams s" "streamRef s' = streamRef s"
    "mediaRecorderRef s' = mediaRecorderRef s"
  using assms by (auto simp: onstop_def Let_def split: if_splits option.splits)

lemma released_dispatch_stop: "released s \<Longrightarrow> released (dispatch_stop rid now s)"
proof (erule released_cong)
  show "status (dispatch_stop rid now s) = status s"
    by (auto simp: dispatch_stop_def Let_def onstop_fields split: option.split sum.split)
  show "frame_requests (dispatch_stop rid now s) = frame_requests s"
    by (auto simp: dispatch_stop_def Let_def onstop_more_fields split: option.split sum.split)
  show "animationFrameIdRef (dispatch_stop rid now s) = animationFrameIdRef s"
    by (auto simp: dispatch_stop_def Let_def onstop_more_fields split: option.split sum.split)
  show "live_streams (dispatch_stop rid now s) = live_streams s"
    by (auto simp: dispatch_stop_def Let_def onstop_more_fields split: option.split sum.split)
  show "streamRef (dispatch_stop rid now s) = streamRef s"
    by (auto simp: dispatch_stop_def Let_def onstop_more_fields split: option.split sum.split)
  show "next_handle s \<le> next_handle (dispatch_stop rid now s)"
    by (auto simp: dispatch_stop_def Let_def onstop_fields split: option.split sum.split)
  show "mediaRecorderRef (dispatch_stop rid now s) \<noteq> None" if "mediaRecorderRef s \<noteq> None"
    using that
    by (auto simp: dispatch_stop_def Let_def onstop_more_fields split: option.split sum.split)
qed

lemma released_deleteSegment: "released s \<Longrightarrow> released (deleteSegment i s)"
  by (erule released_cong) (simp_all add: deleteSegment_def)

lemma released_step:
  "released s \<Longrightarrow> sequential e \<Longrightarrow> no_partial_start e \<Longrightarrow> released (step e s)"
  by (cases e)
    (simp_all add: released_startRecording released_stopRecording released_splitSegment
      released_deleteSegment released_resetRecording released_createNewSegment
      released_dispatch_data released_dispatch_stop released_dispatch_frame)

lemma released_run:
  "released s \<Longrightarrow> list_all sequential es \<Longrightarrow> list_all no_partial_start es
   \<Longrightarrow> released (run es s)"
  unfolding run_def by (induction es arbitrary: s) (simp_all add: released_step)

text \<open>
  So in a session of sequential events in which no start fails after the stream was
  acquired, a status other than \<open>Recording\<close> comes with no interval, no pending frame
  request and no live or referenced stream.
\<close>

lemma quiet_when_not_recording:
  assumes "list_all sequential es" and "list_all no_partial_start es"
    and "status (run es init) \<noteq> Recording"
  shows "intervals (run es init) = [] \<and> frame_requests (run es init) = [] \<and>
         live_streams (run es init) = [] \<and> streamRef (run es init) = None"
proof -
  have "armed (run es init)"
    using armed_init assms(1) by (rule armed_run)
  moreover have "released (run es init)"
    using released_init assms(1,2) by (rule released_run)
  ultimately show ?thesis
    using assms(3) by (simp add: armed_def released_def)
qed

section \<open>Properties of the batch splitter\<close>

subsection \<open>Numeric comparison of pattern names\<close>

lemma takeWhile_before: "\<not> P y \<Longrightarrow> takeWhile P (xs @ y # ys) = takeWhile P xs"
  by (induction xs) simp_all

lemma dropWhile_before: "\<not> P y \<Longrightarrow> dropWhile P (xs @ y # ys) = dropWhile P xs @ y # ys"
  by (induction xs) simp_all

lemma tokens_append_sym:
  "\<not> is_digit c \<Longrightarrow> tokens (p @ c # r) = tokens p @ Sym c # tokens r"
proof (induction p rule: tokens.induct)
  case 1
  then show ?case by simp
next
  case (2 d cs)
  show ?case
  proof (cases "is_digit d")
    case True
    with 2 show ?thesis
      by (simp add: takeWhile_before dropWhile_before)
  next
    case False
    with 2 show ?thesis by simp
  qed
qed

lemma tokens_digits:
  assumes "ds \<noteq> []" "list_all is_digit ds"
  shows "tokens ds = [Num (digits_value ds)]"
proof -
  from assms obtain d ds' where ds: "ds = d # ds'" "is_digit d" "list_all is_digit ds'"
    by (cases ds) auto
  then have tw: "takeWhile is_digit ds' = ds'" and dw: "dropWhile is_digit ds' = []"
    by (simp_all add: list_all_iff)
  have "tokens ds = Num (digits_value (d # takeWhile is_digit ds')) # tokens (dropWhile is_digit ds')"
    using ds by simp
  then show ?thesis
    by (simp only: tw dw ds tokens.simps)
qed

lemma compare_token_refl: "compare_token t t = 0"
  by (cases t) (simp_all add: sign_def)

lemma compare_tokens_refl: "compare_tokens ts ts = 0"
  by (induction ts) (simp_all add: compare_token_refl)

lemma compare_tokens_prefix: "compare_tokens (p @ xs) (p @ ys) = compare_tokens xs ys"
  by (induction p) (simp_all add: compare_token_refl)

lemma padStart_zero_digits:
  "padStart n (CHR ''0'') (toString k) \<noteq> []"
  "list_all is_digit (padStart n (CHR ''0'') (toString k))"
  "digits_value (padStart n (CHR ''0'') (toString k)) = k"
proof -
  have "toString k \<noteq> []"
    by (subst toString.simps) simp
  then show "padStart n (CHR ''0'') (toString k) \<noteq> []"
    by (simp add: padStart_def)
  show "list_all is_digit (padStart n (CHR ''0'') (toString k))"
    using toString_digits [of k] by (auto simp: padStart_def list_all_iff is_digit_def)
  show "digits_value (padStart n (CHR ''0'') (toString k)) = k"
    by (simp add: padStart_def digits_value_zeros digits_value_toString)
qed

lemma tokens_outputPattern:
  "tokens (outputPattern b e k) = tokens b @ [Sym (CHR ''_''), Num k, Sym (CHR ''.'')] @ tokens e"
proof -
  have u: "\<not> is_digit (CHR ''_'')" and d: "\<not> is_digit (CHR ''.'')"
    by (simp_all add: is_digit_def)
  have "tokens (outputPattern b e k) =
          tokens b @ Sym (CHR ''_'') # tokens (padStart 3 (CHR ''0'') (toString k) @ CHR ''.'' # e)"
    using tokens_append_sym [OF u] by (simp add: outputPattern_def)
  also have "tokens (padStart 3 (CHR ''0'') (toString k) @ CHR ''.'' # e) =
          tokens (padStart 3 (CHR ''0'') (toString k)) @ Sym (CHR ''.'') # tokens e"
    using d by (rule tokens_append_sym)
  also have "tokens (padStart 3 (CHR ''0'') (toString k)) = [Num k]"
    using tokens_digits [OF padStart_zero_digits(1,2), of 3 k] by (simp add: padStart_zero_digits(3))
  finally show ?thesis by simp
qed

lemma localeCompare_outputPattern:
  "localeCompare_numeric (outputPattern b e i) (outputPattern b e j) = sign (int i - int j)"
  by (simp add: localeCompare_numeric_def tokens_outputPattern compare_tokens_prefix
      compare_tokens_refl compare_token_refl sign_def)

lemma outputPattern_inj: "outputPattern b e i = outputPattern b e j \<Longrightarrow> i = j"
proof -
  assume "outputPattern b e i = outputPattern b e j"
  then have "localeCompare_numeric (outputPattern b e i) (outputPattern b e j) = 0"
    by (simp add: localeCompare_numeric_def compare_tokens_refl)
  then show "i = j"
    by (simp add: localeCompare_outputPattern sign_def split: if_splits)
qed

subsection \<open>Sorting\<close>

lemma mset_insert_by: "mset (insert_by cmp x xs) = add_mset x (mset xs)"
  by (induction xs) simp_all

lemma set_insert_by: "set (insert_by cmp x xs) = insert x (set xs)"
  by (induction xs) auto

lemma sorted_insert_by:
  assumes "\<And>y. y \<in> set xs \<Longrightarrow> (cmp x y < 0) = (key x < key y)"
    and "sorted (map key xs)"
  shows "sorted (map key (insert_by cmp x xs))"
  using assms
proof (induction xs)
  case Nil
  then show ?case by simp
next
  case (Cons y ys)
  show ?case
  proof (cases "cmp x y < 0")
    case True
    with Cons.prems show ?thesis
      by (auto simp: less_imp_le)
  next
    case False
    with Cons.prems have "key y \<le> key x"
      by (simp add: not_less)
    moreover have "sorted (map key (insert_by cmp x ys))"
      using Cons.prems by (intro Cons.IH) simp_all
    ultimately show ?thesis
      using False Cons.prems(2) by (auto simp: set_insert_by)
  qed
qed

lemma sort_by_foldl:
  assumes "\<And>x y. x \<in> set (acc @ xs) \<Longrightarrow> y \<in> set (acc @ xs) \<Longrightarrow> (cmp x y < 0) = (key x < key y)"
    and "sorted (map key acc)"
  shows "sorted (map key (foldl (\<lambda>acc x. insert_by cmp x acc) acc xs)) \<and>
         mset (foldl (\<lambda>acc x. insert_by cmp x acc) acc xs) = mset acc + mset xs"
  using assms
proof (induction xs arbitrary: acc)
  case Nil
  then show ?case by simp
next
  case (Cons x xs)
  have s: "sorted (map key (insert_by cmp x acc))"
    using Cons.prems by (intro sorted_insert_by) simp_all
  have "sorted (map key (foldl (\<lambda>acc x. insert_by cmp x acc) (insert_by cmp x acc) xs)) \<and>
        mset (foldl (\<lambda>acc x. insert_by cmp x acc) (insert_by cmp x acc) xs) =
          mset (insert_by cmp x acc) + mset xs"
    using Cons.prems(1) s by (intro Cons.IH) (auto simp: set_insert_by)
  then show ?case
    by (simp add: mset_insert_by)
qed

lemma sort_by_key:
  assumes "\<And>x y. x \<in> set xs \<Longrightarrow> y \<in> set xs \<Longrightarrow> (cmp x y < 0) = (key x < key y)"
  shows "map key (sort_by cmp xs) = sort (map key xs)"
proof -
  have "sorted (map key (sort_by cmp xs)) \<and> mset (sort_by cmp xs) = mset [] + mset xs"
    unfolding sort_by_def using assms by (intro sort_by_foldl) simp_all
  then have "sorted (map key (sort_by cmp xs))" and m: "mset (sort_by cmp xs) = mset xs"
    by simp_all
  moreover have "mset (map key (sort_by cmp xs)) = mset (map key xs)"
    using arg_cong [OF m, of "image_mset key"] by simp
  ultimately show ?thesis
    by (metis properties_for_sort)
qed

lemma set_sort_by: "set (sort_by cmp xs) = set xs"
proof -
  have "set (foldl (\<lambda>acc x. insert_by cmp x acc) acc xs) = set acc \<union> set xs" for acc
    by (induction xs arbitrary: acc) (auto simp: set_insert_by)
  then show ?thesis by (simp add: sort_by_def)
qed

text \<open>Files named by the pattern come out of the sort in the order of their indices.\<close>

lemma sort_by_outputPattern:
  fixes blobs :: "SplitFile list"
  assumes "map name blobs = map (outputPattern b e) ks"
  shows "map name (sort_by (\<lambda>x y. localeCompare_numeric (name x) (name y)) blobs) =
         map (outputPattern b e) (sort ks)"
proof -
  define key where "key = (\<lambda>x :: SplitFile. the_inv (outputPattern b e) (name x))"
  have inj: "inj (outputPattern b e)"
    by (rule injI) (rule outputPattern_inj)
  have inv: "the_inv (outputPattern b e) (outputPattern b e k) = k" for k
    using inj by (rule the_inv_f_f)
  have names: "\<exists>k. name x = outputPattern b e k" if "x \<in> set blobs" for x :: SplitFile
  proof -
    from that have "name x \<in> set (map name blobs)" by simp
    then show ?thesis unfolding assms by auto
  qed
  have nk: "name x = outputPattern b e (key x)" if "x \<in> set blobs" for x :: SplitFile
    using names [OF that] by (auto simp: key_def inv)
  have "map key blobs = map (the_inv (outputPattern b e)) (map name blobs)"
    by (simp add: key_def)
  moreover have "map (the_inv (outputPattern b e)) (map (outputPattern b e) ks) = ks"
    by (induction ks) (simp_all add: inv)
  ultimately have keys: "map key blobs = ks"
    by (simp only: assms)
  have "(localeCompare_numeric (name x) (name y) < 0) = (key x < key y)"
    if "x \<in> set blobs" "y \<in> set blobs" for x y :: SplitFile
    using nk [OF that(1)] nk [OF that(2)]
    by (simp add: localeCompare_outputPattern [of b e "key x" "key y"] sign_def)
  then have "map key (sort_by (\<lambda>x y. localeCompare_numeric (name x) (name y)) blobs) = sort (map key blobs)"
    by (intro sort_by_key) simp_all
  moreover have "map name (sort_by (\<lambda>x y. localeCompare_numeric (name x) (name y)) blobs) =
        map (outputPattern b e) (map key (sort_by (\<lambda>x y. localeCompare_numeric (name x) (name y)) blobs))"
    by (simp add: set_sort_by nk)
  ultimately show ?thesis
    by (simp add: keys)
qed

subsection \<open>Following one job\<close>

lemma set_engine_fs_fields [simp]:
  "splitFiles (set_engine_fs entries s) = splitFiles s"
  "job_status (set_engine_fs entries s) = job_status s"
  "job_error (set_engine_fs entries s) = job_error s"
  "progressRatio (set_engine_fs entries s) = progressRatio s"
  "selectedFile (set_engine_fs entries s) = selectedFile s"
  "(ffmpegRef (set_engine_fs entries s) = None) = (ffmpegRef s = None)"
  by (simp_all add: set_engine_fs_def split: option.split)

lemma engine_fs_set_engine_fs:
  "ffmpegRef s \<noteq> None \<Longrightarrow> engine_fs (set_engine_fs entries s) = entries"
  by (auto simp: engine_fs_def set_engine_fs_def)

lemma progress_fields [simp]:
  "splitFiles (progress st r p s) = splitFiles s"
  "job_status (progress st r p s) = job_status s"
  "job_error (progress st r p s) = job_error s"
  "ffmpegRef (progress st r p s) = ffmpegRef s"
  "selectedFile (progress st r p s) = selectedFile s"
  "progressMessage (progress st r p s) = progressMessage s"
  by (simp_all add: progress_def)

lemma report_progress_fields [simp]:
  "splitFiles (report_progress r s) = splitFiles s"
  "job_status (report_progress r s) = job_status s"
  "job_error (report_progress r s) = job_error s"
  "ffmpegRef (report_progress r s) = ffmpegRef s"
  "selectedFile (report_progress r s) = selectedFile s"
  "progressMessage (report_progress r s) = progressMessage s"
  by (simp_all add: report_progress_def split: option.split)

lemma run_reports_fields [simp]:
  "splitFiles (foldl (\<lambda>acc r. report_progress r acc) s rs) = splitFiles s"
  "job_status (foldl (\<lambda>acc r. report_progress r acc) s rs) = job_status s"
  "job_error (foldl (\<lambda>acc r. report_progress r acc) s rs) = job_error s"
  "ffmpegRef (foldl (\<lambda>acc r. report_progress r acc) s rs) = ffmpegRef s"
  by (induction rs arbitrary: s) simp_all

lemma while_running_fields [simp]:
  "splitFiles (while_running env f s rs) = splitFiles s"
  "job_status (while_running env f s rs) = job_status s"
  "job_error (while_running env f s rs) = job_error s"
  "ffmpegRef (while_running env f s rs) = ffmpegRef (set_engine_fs (fs_after_run env f (engine_fs s)) s)"
  by (simp_all add: while_running_def)

lemma loadFFmpeg_returns:
  assumes "ffmpegRef s \<noteq> None \<or> (script_loaded env \<and> load_resolves env)"
  shows "\<exists>s1. loadFFmpeg env s = Inr s1 \<and> engine_fs s1 = job_fs env s \<and> ffmpegRef s1 \<noteq> None \<and>
              splitFiles s1 = splitFiles s"
  using assms by (auto simp: loadFFmpeg_def Let_def engine_fs_def job_fs_def split: option.split)

lemma read_results_listed:
  assumes "set ns \<subseteq> fst ` set entries"
  shows "\<exists>blobs. read_results ty entries ns = Some blobs \<and> map name blobs = ns"
  using assms
proof (induction ns)
  case Nil
  then show ?case by simp
next
  case (Cons n ns)
  then have "n \<in> fst ` set entries" by simp
  then obtain d where "map_of entries n = Some d"
    by (metis domD dom_map_of_conv_image_fst)
  moreover from Cons obtain blobs where "read_results ty entries ns = Some blobs" "map name blobs = ns"
    by auto
  ultimately show ?case
    by (simp add: FS_readFile_def)
qed

text \<open>
  When the engine is there, the file is fetched and \<^verbatim>\<open>run\<close> resolves with at least one
  entry under the base name, \<open>splitFiles\<close> ends up as the sorted list of those entries,
  whatever the cleanup after it does.
\<close>

lemma handleSplit_splitFiles:
  assumes f: "selectedFile s = Some f"
    and d: "0 < splitDuration s"
    and l: "ffmpegRef s \<noteq> None \<or> (script_loaded env \<and> load_resolves env)"
    and ft: "fetchFile_resolves env"
    and r: "run_resolves env"
    and ns: "filter (\<lambda>n. startsWith n (splitter_baseName (file_name f)))
               (FS_readdir (fs_after_run env f (job_fs env s))) = ns"
    and ne: "ns \<noteq> []"
  shows "\<exists>blobs. map name blobs = ns \<and>
           splitFiles (handleSplit env s) =
             sort_by (\<lambda>a b. localeCompare_numeric (name a) (name b)) blobs"
proof -
  define s0 where "s0 = s\<lparr>job_error := None, splitFiles := []\<rparr>"
  have l0: "ffmpegRef s0 \<noteq> None \<or> (script_loaded env \<and> load_resolves env)"
    using l by (simp add: s0_def)
  from loadFFmpeg_returns [OF l0] obtain s1 where s1: "loadFFmpeg env s0 = Inr s1"
    "engine_fs s1 = job_fs env s" "ffmpegRef s1 \<noteq> None"
    by (auto simp: s0_def job_fs_def)
  define s2 where "s2 = begin_processing s1"
  define s4 where "s4 = while_running env f s2 (run_reports env)"
  define s5 where "s5 = s4\<lparr>progressMessage := ReadingResults\<rparr>"
  have e2: "engine_fs s2 = job_fs env s" "ffmpegRef s2 \<noteq> None"
    using s1 by (simp_all add: s2_def begin_processing_def engine_fs_def)
  have r4: "ffmpegRef s4 = ffmpegRef (set_engine_fs (fs_after_run env f (job_fs env s)) s2)"
    by (simp add: s4_def e2)
  have e5: "engine_fs s5 = fs_after_run env f (job_fs env s)"
    using engine_fs_set_engine_fs [OF e2(2), of "fs_after_run env f (job_fs env s)"]
    by (simp add: s5_def engine_fs_def r4)
  have "set ns \<subseteq> fst ` set (engine_fs s5)"
    unfolding e5 ns [symmetric] by (auto simp: FS_readdir_def)
  from read_results_listed [OF this, of "file_type f"] obtain blobs
    where blobs: "read_results (file_type f) (engine_fs s5) ns = Some blobs" "map name blobs = ns"
    by blast
  define s6 where "s6 = s5\<lparr>splitFiles := sort_by (\<lambda>a b. localeCompare_numeric (name a) (name b)) blobs\<rparr>"
  have c: "collect_results f ns s5 = Some s6"
    using ne blobs by (simp add: collect_results_def s6_def)
  have t: "handleSplit_try env f s0 = cleanup_and_finish (inputFileName_of (file_name f)) ns s6"
    unfolding handleSplit_try_def s1(1)
    by (simp add: Let_def ft r s2_def [symmetric] s4_def [symmetric]
        s5_def [symmetric] e5 ns c)
  have "splitFiles (handleSplit env s) = splitFiles s6"
    using f d
    by (simp add: handleSplit_def s0_def [symmetric] t cleanup_and_finish_def
        split: option.split sum.split)
  then show ?thesis
    using blobs(2) by (auto simp: s6_def)
qed

subsection \<open>The published progress value\<close>

text \<open>
  An engine is created only by \<open>loadFFmpeg\<close>, and only while \<open>ffmpegRef\<close> is empty; the
  status its callback closes over is the one \<open>handleSplit\<close> was called in. No job is
  processing then, so the test of line 64 fails for every report of every engine, and
  \<open>progressRatio\<close> keeps the value 0 that line 30 and line 106 give it.
\<close>

lemma report_progress_blind:
  "callback_blind s \<Longrightarrow> report_progress r s = s"
  by (simp add: callback_blind_def report_progress_def progress_def split: option.splits)

lemma callback_blind_set_engine_fs [simp]:
  "callback_blind (set_engine_fs entries s) = callback_blind s"
  by (simp add: callback_blind_def set_engine_fs_def split: option.splits)

lemma callback_blind_begin_processing [simp]:
  "callback_blind (begin_processing s) = callback_blind s"
  by (simp add: callback_blind_def begin_processing_def)

lemma progressRatio_begin_processing [simp]:
  "progressRatio (begin_processing s) = 0"
  by (simp add: begin_processing_def)

lemma job_status_begin_processing [simp]:
  "job_status (begin_processing s) = SProcessing"
  by (simp add: begin_processing_def)

lemma reports_blind:
  "callback_blind s \<Longrightarrow> foldl (\<lambda>acc r. report_progress r acc) s rs = s"
  by (induction rs) (simp_all add: report_progress_blind)

lemma while_running_blind:
  assumes "callback_blind s"
  shows "while_running env f s rs =
           (set_engine_fs (fs_after_run env f (engine_fs s)) s)\<lparr>progressMessage := SplittingAudio\<rparr>"
proof -
  have "callback_blind ((set_engine_fs (fs_after_run env f (engine_fs s)) s)\<lparr>progressMessage := SplittingAudio\<rparr>)"
    using assms callback_blind_set_engine_fs [of "fs_after_run env f (engine_fs s)" s]
    by (simp add: callback_blind_def)
  then show ?thesis
    unfolding while_running_def by (rule reports_blind)
qed

lemma while_running_blind_fields:
  assumes "callback_blind s"
  shows "callback_blind (while_running env f s rs)"
    and "progressRatio (while_running env f s rs) = progressRatio s"
  using assms callback_blind_set_engine_fs [of "fs_after_run env f (engine_fs s)" s]
  by (simp_all add: while_running_blind callback_blind_def)

lemma loadFFmpeg_between_jobs:
  assumes "between_jobs s"
    and "loadFFmpeg env s = Inl s' \<or> loadFFmpeg env s = Inr s'"
  shows "callback_blind s' \<and> progressRatio s' = 0"
  using assms
  by (auto simp: loadFFmpeg_def Let_def between_jobs_def callback_blind_def
      split: option.splits if_splits)

lemma collect_results_blind:
  "collect_results f ns s = Some s'
   \<Longrightarrow> callback_blind s' = callback_blind s \<and> progressRatio s' = progressRatio s"
  by (auto simp: collect_results_def callback_blind_def split: if_splits)

lemma cleanup_and_finish_blind:
  assumes "cleanup_and_finish i ns s = Inl s' \<or> cleanup_and_finish i ns s = Inr s'"
  shows "callback_blind s' = callback_blind s \<and> progressRatio s' = progressRatio s"
proof -
  have "s' = s \<or> (\<exists>entries. s' = set_engine_fs entries s) \<or>
        (\<exists>entries. s' = (set_engine_fs entries s)\<lparr>job_status := SDone\<rparr>)"
    using assms by (auto simp: cleanup_and_finish_def split: option.splits sum.splits)
  then show ?thesis
  proof (elim disjE exE)
    assume "s' = s"
    then show ?thesis by simp
  next
    fix entries assume "s' = set_engine_fs entries s"
    then show ?thesis by simp
  next
    fix entries assume s': "s' = (set_engine_fs entries s)\<lparr>job_status := SDone\<rparr>"
    have "callback_blind s' = callback_blind (set_engine_fs entries s)"
      unfolding s' by (simp add: callback_blind_def)
    then show ?thesis
      by (simp add: s')
  qed
qed

lemma cleanup_and_finish_done:
  "cleanup_and_finish i ns s = Inr s' \<Longrightarrow> job_status s' = SDone"
  by (auto simp: cleanup_and_finish_def split: option.splits sum.splits)

lemma handleSplit_try_between_jobs:
  assumes b: "between_jobs s"
    and t: "handleSplit_try env f s = Inl s' \<or> handleSplit_try env f s = Inr s'"
  shows "callback_blind s' \<and> progressRatio s' = 0 \<and>
         (handleSplit_try env f s = Inr s' \<longrightarrow> job_status s' = SDone)"
proof (cases "loadFFmpeg env s")
  case (Inl a)
  with t have "s' = a" "handleSplit_try env f s = Inl s'"
    by (auto simp: handleSplit_try_def)
  with loadFFmpeg_between_jobs [OF b, of env a] Inl show ?thesis
    by simp
next
  case (Inr s1)
  define s2 where "s2 = begin_processing s1"
  define s4 where "s4 = while_running env f s2 (run_reports env)"
  define s5 where "s5 = s4\<lparr>progressMessage := ReadingResults\<rparr>"
  define ns where "ns = filter (\<lambda>n. startsWith n (splitter_baseName (file_name f))) (FS_readdir (engine_fs s5))"
  have b2: "callback_blind s2" "progressRatio s2 = 0"
    using loadFFmpeg_between_jobs [OF b, of env s1] Inr by (simp_all add: s2_def)
  have b4: "callback_blind s4" "progressRatio s4 = 0"
    using while_running_blind_fields [OF b2(1), of env f "run_reports env"] b2(2)
    by (simp_all add: s4_def)
  have b5: "callback_blind s5" "progressRatio s5 = 0"
    using b4 by (simp_all add: s5_def callback_blind_def)
  have cases: "handleSplit_try env f s =
      (if \<not> fetchFile_resolves env then Inl s2
       else if \<not> run_resolves env then Inl s4
       else case collect_results f ns s5 of
              None \<Rightarrow> Inl s5
            | Some s6 \<Rightarrow> cleanup_and_finish (inputFileName_of (file_name f)) ns s6)"
    unfolding handleSplit_try_def Inr ns_def
    by (simp add: Let_def s2_def [symmetric] s4_def [symmetric] s5_def [symmetric])
  show ?thesis
  proof (cases "fetchFile_resolves env \<and> run_resolves env")
    case False
    with t cases b2 b4 show ?thesis
      by (auto split: if_splits)
  next
    case True
    show ?thesis
    proof (cases "collect_results f ns s5")
      case None
      with True t cases b5 show ?thesis
        by auto
    next
      case (Some s6)
      with True cases have c: "handleSplit_try env f s = cleanup_and_finish (inputFileName_of (file_name f)) ns s6"
        by simp
      from collect_results_blind [OF Some] b5 have b6: "callback_blind s6" "progressRatio s6 = 0"
        by simp_all
      from t cleanup_and_finish_blind [of "inputFileName_of (file_name f)" ns s6 s'] b6
      have "callback_blind s' \<and> progressRatio s' = 0"
        unfolding c by simp
      moreover have "handleSplit_try env f s = Inr s' \<longrightarrow> job_status s' = SDone"
        unfolding c using cleanup_and_finish_done by blast
      ultimately show ?thesis
        by simp
    qed
  qed
qed

lemma between_jobs_request [simp]:
  "between_jobs (s\<lparr>job_error := e, splitFiles := xs\<rparr>) = between_jobs s"
  by (simp add: between_jobs_def callback_blind_def)

lemma handleSplit_between_jobs:
  assumes "between_jobs s"
  shows "between_jobs (handleSplit env s)"
proof (cases "selectedFile s")
  case None
  with assms show ?thesis
    by (simp add: handleSplit_def between_jobs_def callback_blind_def)
next
  case (Some f)
  show ?thesis
  proof (cases "splitDuration s \<le> 0")
    case True
    with Some assms show ?thesis
      by (simp add: handleSplit_def between_jobs_def callback_blind_def)
  next
    case False
    have b0: "between_jobs (s\<lparr>job_error := None, splitFiles := []\<rparr>)"
      using assms by simp
    show ?thesis
    proof (cases "handleSplit_try env f (s\<lparr>job_error := None, splitFiles := []\<rparr>)")
      case (Inl a)
      with handleSplit_try_between_jobs [OF b0, of env f a] Some False show ?thesis
        by (simp add: handleSplit_def between_jobs_def callback_blind_def)
    next
      case (Inr c)
      with handleSplit_try_between_jobs [OF b0, of env f c] Some False show ?thesis
        by (simp add: handleSplit_def between_jobs_def)
    qed
  qed
qed

lemma between_jobs_init: "between_jobs splitter_init"
  by (simp add: between_jobs_def callback_blind_def splitter_init_def)

lemma splitter_step_between_jobs:
  assumes "between_jobs s"
  shows "between_jobs (splitter_step e s)"
proof (cases e)
  case (SplitClicked env)
  with handleSplit_between_jobs [OF assms] show ?thesis
    by simp
qed (use assms in \<open>simp_all add: handleFileSelect_def handleReset_def between_jobs_def callback_blind_def\<close>)

lemma splitter_run_between_jobs:
  "between_jobs s \<Longrightarrow> between_jobs (splitter_run es s)"
  unfolding splitter_run_def
  by (induction es arbitrary: s) (simp_all add: splitter_step_between_jobs)

text \<open>
  The value in every state the component passes through: between jobs, when a job
  enters \<^verbatim>\<open>'processing'\<close>, and while \<^verbatim>\<open>run\<close> is in progress.
\<close>

lemma progressRatio_stays_zero:
  assumes "loadFFmpeg env ((splitter_run es splitter_init)\<lparr>job_error := None, splitFiles := []\<rparr>) = Inr s1"
  shows "progressRatio (splitter_run es splitter_init) = 0"
    and "progressRatio (begin_processing s1) = 0"
    and "progressRatio (while_running env f (begin_processing s1) rs) = 0"
    and "report_progress r (while_running env f (begin_processing s1) rs) =
         while_running env f (begin_processing s1) rs"
    and "progressRatio (handleSplit env' (splitter_run es splitter_init)) = 0"
proof -
  have b: "between_jobs (splitter_run es splitter_init)"
    by (rule splitter_run_between_jobs [OF between_jobs_init])
  then show "progressRatio (splitter_run es splitter_init) = 0"
    by (simp add: between_jobs_def)
  from handleSplit_between_jobs [OF b]
  show "progressRatio (handleSplit env' (splitter_run es splitter_init)) = 0"
    by (simp add: between_jobs_def)
  have "between_jobs ((splitter_run es splitter_init)\<lparr>job_error := None, splitFiles := []\<rparr>)"
    using b by simp
  from loadFFmpeg_between_jobs [OF this, of env s1] assms
  have b1: "callback_blind (begin_processing s1)"
    by simp
  show "progressRatio (begin_processing s1) = 0"
    by simp
  from while_running_blind_fields [OF b1]
  show "progressRatio (while_running env f (begin_processing s1) rs) = 0"
    and "report_progress r (while_running env f (begin_processing s1) rs) =
         while_running env f (begin_processing s1) rs"
    by (simp_all add: report_progress_blind)
qed

subsection \<open>The working area after a job that completes\<close>

lemma FS_unlink_names:
  "FS_unlink n entries = Some entries' \<Longrightarrow> fst ` set entries' = fst ` set entries - {n}"
  by (auto simp: FS_unlink_def split: if_splits)

lemma unlink_each_names:
  "unlink_each ns entries = Inr entries' \<Longrightarrow> fst ` set entries' = fst ` set entries - set ns"
proof (induction ns arbitrary: entries)
  case Nil
  then show ?case by simp
next
  case (Cons n ns)
  then obtain e1 where e1: "FS_unlink n entries = Some e1" "unlink_each ns e1 = Inr entries'"
    by (auto split: option.splits)
  from Cons.IH [OF e1(2)] FS_unlink_names [OF e1(1)] show ?case
    by auto
qed

lemma engine_fs_set_engine_fs_cases:
  "engine_fs (set_engine_fs entries s) = (if ffmpegRef s = None then [] else entries)"
  by (auto simp: engine_fs_def set_engine_fs_def)

lemma engine_fs_status [simp]: "engine_fs (s\<lparr>job_status := x\<rparr>) = engine_fs s"
  by (simp add: engine_fs_def)

lemma engine_fs_splitFiles [simp]: "engine_fs (s\<lparr>splitFiles := x\<rparr>) = engine_fs s"
  by (simp add: engine_fs_def)

lemma engine_fs_job_error [simp]: "engine_fs (s\<lparr>job_error := x\<rparr>) = engine_fs s"
  by (simp add: engine_fs_def)

text \<open>
  When the \<^verbatim>\<open>try\<close> block runs to its end, the job is \<open>SDone\<close> and the working area
  holds neither the input name nor any name under the base name.
\<close>

lemma collect_results_engine_fs:
  "collect_results f ns s = Some s' \<Longrightarrow> engine_fs s' = engine_fs s"
  by (auto simp: collect_results_def split: if_splits)

lemma cleanup_and_finish_completes:
  assumes "cleanup_and_finish i ns s = Inr s'"
  shows "job_status s' = SDone \<and>
         fst ` set (engine_fs s') \<subseteq> fst ` set (engine_fs s) - {i} - set ns"
proof -
  from assms obtain entries entries' where
    u1: "FS_unlink i (engine_fs s) = Some entries"
    and u2: "unlink_each ns entries = Inr entries'"
    and s': "s' = (set_engine_fs entries' s)\<lparr>job_status := SDone\<rparr>"
    by (auto simp: cleanup_and_finish_def split: option.splits sum.splits)
  have "fst ` set entries' = fst ` set (engine_fs s) - {i} - set ns"
    using unlink_each_names [OF u2] FS_unlink_names [OF u1] by simp
  then show ?thesis
    unfolding s' by (simp add: engine_fs_set_engine_fs_cases)
qed

lemma handleSplit_try_completes:
  assumes "handleSplit_try env f s = Inr s'"
  shows "job_status s' = SDone \<and>
         inputFileName_of (file_name f) \<notin> fst ` set (engine_fs s') \<and>
         (\<forall>n \<in> fst ` set (engine_fs s'). \<not> startsWith n (splitter_baseName (file_name f)))"
proof -
  from assms obtain s5 s6 where
    c: "collect_results f (filter (\<lambda>n. startsWith n (splitter_baseName (file_name f)))
                            (FS_readdir (engine_fs s5))) s5 = Some s6"
    and u: "cleanup_and_finish (inputFileName_of (file_name f))
              (filter (\<lambda>n. startsWith n (splitter_baseName (file_name f)))
                 (FS_readdir (engine_fs s5))) s6 = Inr s'"
    unfolding handleSplit_try_def Let_def
    by (auto split: sum.splits if_splits option.splits)
  from cleanup_and_finish_completes [OF u] collect_results_engine_fs [OF c] show ?thesis
    by (auto simp: FS_readdir_def)
qed

lemma handleSplit_done_clean:
  assumes "selectedFile s = Some f" and "0 < splitDuration s"
    and "job_status (handleSplit env s) = SDone"
  shows "inputFileName_of (file_name f) \<notin> fst ` set (engine_fs (handleSplit env s)) \<and>
         (\<forall>n \<in> fst ` set (engine_fs (handleSplit env s)).
            \<not> startsWith n (splitter_baseName (file_name f)))"
proof (cases "handleSplit_try env f (s\<lparr>job_error := None, splitFiles := []\<rparr>)")
  case (Inl a)
  with assms show ?thesis
    by (simp add: handleSplit_def)
next
  case (Inr b)
  with assms(1,2) have "handleSplit env s = b"
    by (simp add: handleSplit_def)
  with handleSplit_try_completes [OF Inr] show ?thesis
    by simp
qed

section \<open>Main results\<close>

subsection \<open>Segment names are pairwise distinct\<close>

text \<open>
  Claim C2. After any sequence of events of a session (operations of the hook and
  callbacks of the browser, so any number of passes ending within the same minute),
  the names in \<open>recordedChunks\<close> are pairwise distinct. The name given to a new
  segment is not among the names already in the list: it is \<open>base.ext\<close> when that is free,
  and otherwise \<open>base_k.ext\<close> for the least \<open>k \<ge> 2\<close> that is free.
\<close>

theorem segment_names_distinct:
  "distinct (map name (recordedChunks (run es init))) \<and>
   unique_name b e prev (b @ ''.'' @ e) 1 \<notin> name ` set prev \<and>
   unique_name b e prev (b @ ''.'' @ e) 1 =
     (if b @ ''.'' @ e \<notin> name ` set prev then b @ ''.'' @ e
      else numbered_name b e (LEAST k. 2 \<le> k \<and> numbered_name b e k \<notin> name ` set prev))"
proof -
  have "distinct (map name (recordedChunks (run es init)))"
    by (rule distinct_run) (simp add: init_def)
  moreover have "(\<lambda>k. 1 < k \<and> numbered_name b e k \<notin> name ` set prev) =
                 (\<lambda>k. 2 \<le> k \<and> numbered_name b e k \<notin> name ` set prev)"
    by (auto simp: fun_eq_iff)
  ultimately show ?thesis
    using unique_name_fresh [of b e prev "b @ ''.'' @ e" 1]
          unique_name_least [of b e prev "b @ ''.'' @ e" 1]
    by simp
qed

text \<open>Three passes that end within the same minute, and the name a third collision gets.\<close>

theorem segment_names_distinct_witness:
  "distinct (map name (recordedChunks (run
      [StartRecording ''audio/webm;codecs=opus'' 0 SetupSucceeds
         \<lparr>ms = 0, getFullYear = 2024, getMonth = 0, getDate = 1, getHours = 12, getMinutes = 0\<rparr>,
       DataAvailable 0 \<lparr>blob_bytes = [1], blob_type = ''audio/webm''\<rparr>,
       SplitSegment \<lparr>ms = 10, getFullYear = 2024, getMonth = 0, getDate = 1, getHours = 12, getMinutes = 0\<rparr>,
       StopEvent 0 \<lparr>ms = 11, getFullYear = 2024, getMonth = 0, getDate = 1, getHours = 12, getMinutes = 0\<rparr>,
       DataAvailable 1 \<lparr>blob_bytes = [2], blob_type = ''audio/webm''\<rparr>,
       SplitSegment \<lparr>ms = 20, getFullYear = 2024, getMonth = 0, getDate = 1, getHours = 12, getMinutes = 0\<rparr>,
       StopEvent 1 \<lparr>ms = 21, getFullYear = 2024, getMonth = 0, getDate = 1, getHours = 12, getMinutes = 0\<rparr>,
       DataAvailable 2 \<lparr>blob_bytes = [3], blob_type = ''audio/webm''\<rparr>,
       StopRecording,
       StopEvent 2 \<lparr>ms = 31, getFullYear = 2024, getMonth = 0, getDate = 1, getHours = 12, getMinutes = 0\<rparr>]
      init))) \<and>
   unique_name ''202401011200'' ''webm''
     [\<lparr>name = ''202401011200.webm'', blob = \<lparr>blob_bytes = [1], blob_type = []\<rparr>\<rparr>,
      \<lparr>name = ''202401011200_2.webm'', blob = \<lparr>blob_bytes = [2], blob_type = []\<rparr>\<rparr>]
     (''202401011200'' @ ''.'' @ ''webm'') 1 = ''202401011200_3.webm''"
proof -
  have "unique_name ''202401011200'' ''webm''
     [\<lparr>name = ''202401011200.webm'', blob = \<lparr>blob_bytes = [1], blob_type = []\<rparr>\<rparr>,
      \<lparr>name = ''202401011200_2.webm'', blob = \<lparr>blob_bytes = [2], blob_type = []\<rparr>\<rparr>]
     (''202401011200'' @ ''.'' @ ''webm'') 1 = ''202401011200_3.webm''"
    by code_simp
  then show ?thesis
    using segment_names_distinct by blast
qed

subsection \<open>An empty pass\<close>

text \<open>
  Claim C6. When the chunks of a pass concatenate to a blob of size zero, its
  \<^verbatim>\<open>stop\<close> handler returns normally and leaves the state as it is: no segment is
  added, the list keeps its length, and \<open>error\<close> is not set. The same holds for the
  dispatch of the \<^verbatim>\<open>stop\<close> event of such a recorder.
\<close>

theorem empty_pass_emits_nothing:
  assumes "blob_size (new_Blob chunks mimeType) = 0"
  shows "onstop chunks mimeType now s = Inr s \<and>
         (recorder_at s rid = Some r \<and> recorderChunks r = chunks \<and> mr_mimeType r = mimeType
          \<longrightarrow> recordedChunks (step (StopEvent rid now) s) = recordedChunks s
              \<and> error (step (StopEvent rid now) s) = error s
              \<and> status (step (StopEvent rid now) s) = status s)"
  using assms by (simp add: onstop_def dispatch_stop_def Let_def)

theorem empty_pass_emits_nothing_witness:
  "blob_size (new_Blob [] ''audio/webm'') = 0 \<and>
   onstop [] ''audio/webm''
     \<lparr>ms = 0, getFullYear = 2024, getMonth = 0, getDate = 1, getHours = 12, getMinutes = 0\<rparr> init
   = Inr init"
proof -
  have h: "blob_size (new_Blob [] ''audio/webm'') = 0"
    by (simp add: blob_size_def new_Blob_def)
  from empty_pass_emits_nothing [OF h] h show ?thesis
    by blast
qed

subsection \<open>Deleting a segment\<close>

text \<open>
  Claim C10. \<open>deleteSegment i\<close> with \<open>i\<close> negative or not below the length of the list
  changes nothing; with \<open>i\<close> in range the list loses exactly its \<open>i\<close>-th entry, the others
  keeping their order. In both cases \<open>status\<close> and \<open>error\<close> stay as they were. The
  operation is a total function: it raises nothing.
\<close>

theorem deleteSegment_by_index:
  "(i < 0 \<or> int (length (recordedChunks s)) \<le> i \<longrightarrow> deleteSegment i s = s) \<and>
   (0 \<le> i \<and> i < int (length (recordedChunks s)) \<longrightarrow>
      recordedChunks (deleteSegment i s) =
        take (nat i) (recordedChunks s) @ drop (Suc (nat i)) (recordedChunks s) \<and>
      length (recordedChunks (deleteSegment i s)) = length (recordedChunks s) - 1) \<and>
   status (deleteSegment i s) = status s \<and>
   error (deleteSegment i s) = error s"
proof -
  have "deleteSegment i s = s" if "i < 0 \<or> int (length (recordedChunks s)) \<le> i"
  proof -
    from that have "recordedChunks (deleteSegment i s) = recordedChunks s"
      by (auto simp: recordedChunks_deleteSegment)
    then show ?thesis
      by (simp add: deleteSegment_def)
  qed
  moreover have "status (deleteSegment i s) = status s" "error (deleteSegment i s) = error s"
    by (simp_all add: deleteSegment_def)
  ultimately show ?thesis
    by (auto simp: recordedChunks_deleteSegment)
qed

theorem deleteSegment_by_index_witness:
  "deleteSegment (- 1)
     (init\<lparr>recordedChunks := [\<lparr>name = ''a'', blob = \<lparr>blob_bytes = [1], blob_type = []\<rparr>\<rparr>,
                               \<lparr>name = ''b'', blob = \<lparr>blob_bytes = [2], blob_type = []\<rparr>\<rparr>]\<rparr>)
   = init\<lparr>recordedChunks := [\<lparr>name = ''a'', blob = \<lparr>blob_bytes = [1], blob_type = []\<rparr>\<rparr>,
                               \<lparr>name = ''b'', blob = \<lparr>blob_bytes = [2], blob_type = []\<rparr>\<rparr>]\<rparr> \<and>
   map name (recordedChunks (deleteSegment 0
     (init\<lparr>recordedChunks := [\<lparr>name = ''a'', blob = \<lparr>blob_bytes = [1], blob_type = []\<rparr>\<rparr>,
                               \<lparr>name = ''b'', blob = \<lparr>blob_bytes = [2], blob_type = []\<rparr>\<rparr>]\<rparr>))) = [''b'']"
  using deleteSegment_by_index [of "- 1"
          "init\<lparr>recordedChunks := [\<lparr>name = ''a'', blob = \<lparr>blob_bytes = [1], blob_type = []\<rparr>\<rparr>,
                                    \<lparr>name = ''b'', blob = \<lparr>blob_bytes = [2], blob_type = []\<rparr>\<rparr>]\<rparr>"]
        deleteSegment_by_index [of 0
          "init\<lparr>recordedChunks := [\<lparr>name = ''a'', blob = \<lparr>blob_bytes = [1], blob_type = []\<rparr>\<rparr>,
                                    \<lparr>name = ''b'', blob = \<lparr>blob_bytes = [2], blob_type = []\<rparr>\<rparr>]\<rparr>"]
  by simp

subsection \<open>How a segment is named\<close>

text \<open>
  Claim C7, as the code has it. The \<^verbatim>\<open>stop\<close> handler of a pass with a non-empty
  payload and a media type with a \<^verbatim>\<open>'/'\<close> appends one segment named \<open>base.ext\<close> or
  \<open>base_k.ext\<close> with \<open>k \<ge> 2\<close>. Here \<open>base\<close> is built from \<open>now\<close>, the clock reading
  taken inside the handler, that is when the pass has ended, not when it began: the
  year in decimal followed by month, day, hour and minute in two digits each, which is
  \<^verbatim>\<open>YYYYMMDDHHmm\<close> for a four-digit year. And \<open>ext\<close> is the part of the media type
  after its first \<^verbatim>\<open>'/'\<close>, up to the next \<^verbatim>\<open>';'\<close> or \<^verbatim>\<open>'/'\<close>.
\<close>

theorem segment_name_from_stop_time:
  assumes "0 < blob_size (new_Blob chunks mimeType)"
    and "fileExtension_of mimeType = Some ext"
  shows "(\<exists>n. onstop chunks mimeType now s =
              Inr (s\<lparr>recordedChunks := recordedChunks s @
                     [\<lparr>name = n, blob = new_Blob chunks mimeType\<rparr>]\<rparr>) \<and>
            (n = baseName_of now @ ''.'' @ ext \<or>
             (\<exists>k\<ge>2. n = baseName_of now @ ''_'' @ toString k @ ''.'' @ ext))) \<and>
         (\<exists>x r. dropWhile (\<lambda>c. c \<noteq> CHR ''/'') mimeType = x # r \<and>
            ext = takeWhile (\<lambda>c. c \<noteq> CHR '';'') (takeWhile (\<lambda>c. c \<noteq> CHR ''/'') r)) \<and>
         (1000 \<le> getFullYear now \<and> getFullYear now \<le> 9999 \<and> getMonth now \<le> 11 \<and>
          getDate now \<le> 31 \<and> getHours now \<le> 23 \<and> getMinutes now \<le> 59 \<longrightarrow>
            length (baseName_of now) = 12 \<and> list_all is_digit (baseName_of now) \<and>
            digits_value (take 4 (baseName_of now)) = getFullYear now \<and>
            digits_value (take 2 (drop 4 (baseName_of now))) = getMonth now + 1 \<and>
            digits_value (take 2 (drop 6 (baseName_of now))) = getDate now \<and>
            digits_value (take 2 (drop 8 (baseName_of now))) = getHours now \<and>
            digits_value (drop 10 (baseName_of now)) = getMinutes now)"
proof (intro conjI)
  show "\<exists>n. onstop chunks mimeType now s =
              Inr (s\<lparr>recordedChunks := recordedChunks s @
                     [\<lparr>name = n, blob = new_Blob chunks mimeType\<rparr>]\<rparr>) \<and>
            (n = baseName_of now @ ''.'' @ ext \<or>
             (\<exists>k\<ge>2. n = baseName_of now @ ''_'' @ toString k @ ''.'' @ ext))"
  proof -
    define n where "n = unique_name (baseName_of now) ext (recordedChunks s) (baseName_of now @ ''.'' @ ext) 1"
    have "onstop chunks mimeType now s =
            Inr (s\<lparr>recordedChunks := recordedChunks s @ [\<lparr>name = n, blob = new_Blob chunks mimeType\<rparr>]\<rparr>)"
      using assms by (simp add: onstop_def Let_def n_def)
    moreover have "n = baseName_of now @ ''.'' @ ext \<or>
             (\<exists>k\<ge>2. n = baseName_of now @ ''_'' @ toString k @ ''.'' @ ext)"
      unfolding n_def by (rule unique_name_shape)
    ultimately show ?thesis by blast
  qed
  show "\<exists>x r. dropWhile (\<lambda>c. c \<noteq> CHR ''/'') mimeType = x # r \<and>
            ext = takeWhile (\<lambda>c. c \<noteq> CHR '';'') (takeWhile (\<lambda>c. c \<noteq> CHR ''/'') r)"
    using assms(2) by (auto simp: fileExtension_of_eq split: list.splits)
  show "1000 \<le> getFullYear now \<and> getFullYear now \<le> 9999 \<and> getMonth now \<le> 11 \<and>
          getDate now \<le> 31 \<and> getHours now \<le> 23 \<and> getMinutes now \<le> 59 \<longrightarrow>
            length (baseName_of now) = 12 \<and> list_all is_digit (baseName_of now) \<and>
            digits_value (take 4 (baseName_of now)) = getFullYear now \<and>
            digits_value (take 2 (drop 4 (baseName_of now))) = getMonth now + 1 \<and>
            digits_value (take 2 (drop 6 (baseName_of now))) = getDate now \<and>
            digits_value (take 2 (drop 8 (baseName_of now))) = getHours now \<and>
            digits_value (drop 10 (baseName_of now)) = getMinutes now"
    using baseName_of_format [of now] by blast
qed

theorem segment_name_from_stop_time_witness:
  "0 < blob_size (new_Blob [\<lparr>blob_bytes = [1, 2, 3], blob_type = ''audio/webm''\<rparr>] ''audio/webm;codecs=opus'') \<and>
   fileExtension_of ''audio/webm;codecs=opus'' = Some ''webm'' \<and>
   onstop [\<lparr>blob_bytes = [1, 2, 3], blob_type = ''audio/webm''\<rparr>] ''audio/webm;codecs=opus''
     \<lparr>ms = 0, getFullYear = 2024, getMonth = 0, getDate = 1, getHours = 12, getMinutes = 5\<rparr> init =
   Inr (init\<lparr>recordedChunks :=
     [\<lparr>name = ''202401011205.webm'',
       blob = \<lparr>blob_bytes = [1, 2, 3], blob_type = ''audio/webm;codecs=opus''\<rparr>\<rparr>]\<rparr>)"
proof -
  have h1: "0 < blob_size (new_Blob [\<lparr>blob_bytes = [1, 2, 3], blob_type = ''audio/webm''\<rparr>] ''audio/webm;codecs=opus'')"
    by (simp add: blob_size_def new_Blob_def)
  have h2: "fileExtension_of ''audio/webm;codecs=opus'' = Some ''webm''"
    by (simp add: fileExtension_of_def)
  have "onstop [\<lparr>blob_bytes = [1, 2, 3], blob_type = ''audio/webm''\<rparr>] ''audio/webm;codecs=opus''
     \<lparr>ms = 0, getFullYear = 2024, getMonth = 0, getDate = 1, getHours = 12, getMinutes = 5\<rparr> init =
   Inr (init\<lparr>recordedChunks :=
     [\<lparr>name = ''202401011205.webm'',
       blob = \<lparr>blob_bytes = [1, 2, 3], blob_type = ''audio/webm;codecs=opus''\<rparr>\<rparr>]\<rparr>)"
    by code_simp
  with h1 h2 segment_name_from_stop_time [OF h1 h2] show ?thesis
    by blast
qed

text \<open>
  Claim C7 as stated fails: a pass that begins at 12:00 and whose \<^verbatim>\<open>stop\<close> event is
  handled at 12:05 yields a segment named after 12:05, not after its start time.
\<close>

theorem segment_named_after_pass_end:
  "map name (recordedChunks (run
      [StartRecording ''audio/webm'' 0 SetupSucceeds
         \<lparr>ms = 0, getFullYear = 2024, getMonth = 0, getDate = 1, getHours = 12, getMinutes = 0\<rparr>,
       StopRecording,
       DataAvailable 0 \<lparr>blob_bytes = [1, 2, 3], blob_type = ''audio/webm''\<rparr>,
       StopEvent 0
         \<lparr>ms = 300000, getFullYear = 2024, getMonth = 0, getDate = 1, getHours = 12, getMinutes = 5\<rparr>]
      init)) = [''202401011205.webm''] \<and>
   map mr_started (recorders (run
      [StartRecording ''audio/webm'' 0 SetupSucceeds
         \<lparr>ms = 0, getFullYear = 2024, getMonth = 0, getDate = 1, getHours = 12, getMinutes = 0\<rparr>,
       StopRecording,
       DataAvailable 0 \<lparr>blob_bytes = [1, 2, 3], blob_type = ''audio/webm''\<rparr>,
       StopEvent 0
         \<lparr>ms = 300000, getFullYear = 2024, getMonth = 0, getDate = 1, getHours = 12, getMinutes = 5\<rparr>]
      init)) =
     [\<lparr>ms = 0, getFullYear = 2024, getMonth = 0, getDate = 1, getHours = 12, getMinutes = 0\<rparr>] \<and>
   baseName_of \<lparr>ms = 0, getFullYear = 2024, getMonth = 0, getDate = 1, getHours = 12, getMinutes = 0\<rparr>
     = ''202401011200'' \<and>
   ''202401011205.webm'' \<noteq> ''202401011200'' @ ''.'' @ ''webm''"
  by code_simp

subsection \<open>A manual split and the timer\<close>

text \<open>
  Claim C4 does not hold of the code. Line 94 tests the status before the call waits
  for the stream, and nothing tests it after. Two calls of \<^verbatim>\<open>startRecording\<close> made
  before the first stream arrives both pass the test and both arm an interval of five
  minutes (handles 3 and 6); \<open>segmentTimerRef\<close> holds the second only. A manual split two
  minutes later clears interval 6 and arms interval 7, and interval 3 runs on: it
  rotates the recorder at minute five, two minutes before the split plus the period.
  When every start has settled before the next event is taken, one interval runs and a
  manual split replaces it by one armed at the time of the split (lemma
  \<open>split_rearms_timer_when_sequential\<close>).
\<close>

theorem overlapping_starts_leave_old_interval:
  "intervals (run
      [StartBegins ''audio/webm;codecs=opus'' 5,
       StartBegins ''audio/webm;codecs=opus'' 5,
       GetUserMediaSettles 0 SetupSucceeds
         \<lparr>ms = 0, getFullYear = 2024, getMonth = 0, getDate = 1, getHours = 12, getMinutes = 0\<rparr>,
       GetUserMediaSettles 0 SetupSucceeds
         \<lparr>ms = 0, getFullYear = 2024, getMonth = 0, getDate = 1, getHours = 12, getMinutes = 0\<rparr>,
       SplitSegment
         \<lparr>ms = 120000, getFullYear = 2024, getMonth = 0, getDate = 1, getHours = 12, getMinutes = 2\<rparr>]
      init) = [(3, 0, 300000), (7, 120000, 300000)] \<and>
   segmentTimerRef (run
      [StartBegins ''audio/webm;codecs=opus'' 5,
       StartBegins ''audio/webm;codecs=opus'' 5,
       GetUserMediaSettles 0 SetupSucceeds
         \<lparr>ms = 0, getFullYear = 2024, getMonth = 0, getDate = 1, getHours = 12, getMinutes = 0\<rparr>,
       GetUserMediaSettles 0 SetupSucceeds
         \<lparr>ms = 0, getFullYear = 2024, getMonth = 0, getDate = 1, getHours = 12, getMinutes = 0\<rparr>,
       SplitSegment
         \<lparr>ms = 120000, getFullYear = 2024, getMonth = 0, getDate = 1, getHours = 12, getMinutes = 2\<rparr>]
      init) = Some 7 \<and>
   status (run
      [StartBegins ''audio/webm;codecs=opus'' 5,
       StartBegins ''audio/webm;codecs=opus'' 5,
       GetUserMediaSettles 0 SetupSucceeds
         \<lparr>ms = 0, getFullYear = 2024, getMonth = 0, getDate = 1, getHours = 12, getMinutes = 0\<rparr>,
       GetUserMediaSettles 0 SetupSucceeds
         \<lparr>ms = 0, getFullYear = 2024, getMonth = 0, getDate = 1, getHours = 12, getMinutes = 0\<rparr>,
       SplitSegment
         \<lparr>ms = 120000, getFullYear = 2024, getMonth = 0, getDate = 1, getHours = 12, getMinutes = 2\<rparr>]
      init) = Recording \<and>
   mediaRecorderRef (run
      [StartBegins ''audio/webm;codecs=opus'' 5,
       StartBegins ''audio/webm;codecs=opus'' 5,
       GetUserMediaSettles 0 SetupSucceeds
         \<lparr>ms = 0, getFullYear = 2024, getMonth = 0, getDate = 1, getHours = 12, getMinutes = 0\<rparr>,
       GetUserMediaSettles 0 SetupSucceeds
         \<lparr>ms = 0, getFullYear = 2024, getMonth = 0, getDate = 1, getHours = 12, getMinutes = 0\<rparr>,
       SplitSegment
         \<lparr>ms = 120000, getFullYear = 2024, getMonth = 0, getDate = 1, getHours = 12, getMinutes = 2\<rparr>]
      init) = Some 2 \<and>
   mediaRecorderRef (run
      [StartBegins ''audio/webm;codecs=opus'' 5,
       StartBegins ''audio/webm;codecs=opus'' 5,
       GetUserMediaSettles 0 SetupSucceeds
         \<lparr>ms = 0, getFullYear = 2024, getMonth = 0, getDate = 1, getHours = 12, getMinutes = 0\<rparr>,
       GetUserMediaSettles 0 SetupSucceeds
         \<lparr>ms = 0, getFullYear = 2024, getMonth = 0, getDate = 1, getHours = 12, getMinutes = 0\<rparr>,
       SplitSegment
         \<lparr>ms = 120000, getFullYear = 2024, getMonth = 0, getDate = 1, getHours = 12, getMinutes = 2\<rparr>,
       IntervalFires 3
         \<lparr>ms = 300000, getFullYear = 2024, getMonth = 0, getDate = 1, getHours = 12, getMinutes = 5\<rparr>]
      init) = Some 3 \<and>
   (300000 :: real) < 120000 + 5 * 60 * 1000"
  by code_simp

subsection \<open>A start that fails after the stream was acquired\<close>

text \<open>
  Claim C3 does not hold of the code. When \<^verbatim>\<open>getUserMedia\<close> resolves and the
  \<^verbatim>\<open>MediaRecorder\<close> constructor then throws (the browser cannot record the chosen
  media type), the \<^verbatim>\<open>catch\<close> block only sets the message. The session is left
  \<open>Idle\<close> with the stream still referenced and its tracks live and with an
  animation-frame request of the sampling loop pending; a following \<open>stopRecording\<close>
  returns at once, because the status is not \<open>Recording\<close>. Sessions of sequential
  events without such a start keep what the claim says (lemma
  \<open>quiet_when_not_recording\<close>).
\<close>

theorem failed_start_leaves_stream_and_sampling:
  "status (run [StartRecording ''audio/ogg;codecs=opus'' 0
       (MediaRecorderThrows (ErrorObject ''NotSupportedError'' ''unsupported''))
       \<lparr>ms = 0, getFullYear = 2024, getMonth = 0, getDate = 1, getHours = 12, getMinutes = 0\<rparr>,
     StopRecording] init) = Idle \<and>
   streamRef (run [StartRecording ''audio/ogg;codecs=opus'' 0
       (MediaRecorderThrows (ErrorObject ''NotSupportedError'' ''unsupported''))
       \<lparr>ms = 0, getFullYear = 2024, getMonth = 0, getDate = 1, getHours = 12, getMinutes = 0\<rparr>,
     StopRecording] init) = Some 1 \<and>
   live_streams (run [StartRecording ''audio/ogg;codecs=opus'' 0
       (MediaRecorderThrows (ErrorObject ''NotSupportedError'' ''unsupported''))
       \<lparr>ms = 0, getFullYear = 2024, getMonth = 0, getDate = 1, getHours = 12, getMinutes = 0\<rparr>,
     StopRecording] init) = [1] \<and>
   frame_requests (run [StartRecording ''audio/ogg;codecs=opus'' 0
       (MediaRecorderThrows (ErrorObject ''NotSupportedError'' ''unsupported''))
       \<lparr>ms = 0, getFullYear = 2024, getMonth = 0, getDate = 1, getHours = 12, getMinutes = 0\<rparr>,
     StopRecording] init) = [2] \<and>
   error (run [StartRecording ''audio/ogg;codecs=opus'' 0
       (MediaRecorderThrows (ErrorObject ''NotSupportedError'' ''unsupported''))
       \<lparr>ms = 0, getFullYear = 2024, getMonth = 0, getDate = 1, getHours = 12, getMinutes = 0\<rparr>,
     StopRecording] init) = Some (CannotStartRecording ''unsupported'')"
  by code_simp

subsection \<open>The order of the output segments\<close>

text \<open>
  Claim C8. Take a job whose engine is available, whose file is fetched and whose
  \<^verbatim>\<open>run\<close> resolves, and let the entries of the working area under the base name be
  the names \<open>base_NNN.ext\<close> of the output pattern for the indices \<open>ks\<close>, in whatever
  order the directory lists them. Then the names in \<open>splitFiles\<close> are those names in
  increasing order of the index: the comparison is by the value of the number, so
  \<open>010\<close> comes after \<open>002\<close> and \<open>1000\<close> after \<open>999\<close>.
\<close>

theorem outputs_sorted_by_index:
  assumes "selectedFile s = Some f"
    and "0 < splitDuration s"
    and "ffmpegRef s \<noteq> None \<or> (script_loaded env \<and> load_resolves env)"
    and "fetchFile_resolves env"
    and "run_resolves env"
    and "filter (\<lambda>n. startsWith n (splitter_baseName (file_name f)))
           (FS_readdir (fs_after_run env f (job_fs env s))) =
         map (outputPattern (splitter_baseName (file_name f)) (originalExtension_of (file_name f))) ks"
    and "ks \<noteq> []"
  shows "map name (splitFiles (handleSplit env s)) =
         map (outputPattern (splitter_baseName (file_name f)) (originalExtension_of (file_name f)))
           (sort ks)"
proof -
  from handleSplit_splitFiles [OF assms(1-6)] assms(7)
  obtain blobs where
    "map name blobs =
       map (outputPattern (splitter_baseName (file_name f)) (originalExtension_of (file_name f))) ks"
    "splitFiles (handleSplit env s) = sort_by (\<lambda>a b. localeCompare_numeric (name a) (name b)) blobs"
    by auto
  then show ?thesis
    by (simp add: sort_by_outputPattern)
qed

text \<open>A file \<^verbatim>\<open>Talk.MP3\<close> cut into the pieces 10, 2, 1000 and 999, listed in that order.\<close>

theorem outputs_sorted_by_index_witness:
  "map name (splitFiles (handleSplit
      \<lparr>script_loaded = True, load_resolves = True, initial_fs = [], fetchFile_resolves = True,
        run_reports = [],
        run_writes = [(''Talk_010.mp3'', [1]), (''Talk_002.mp3'', [2]),
                      (''Talk_1000.mp3'', [3]), (''Talk_999.mp3'', [4])],
        run_resolves = True\<rparr>
      (splitter_init\<lparr>selectedFile :=
         Some \<lparr>file_name = ''Talk.MP3'', file_type = ''audio/mpeg'', file_data = [7, 7]\<rparr>\<rparr>))) =
   [''Talk_002.mp3'', ''Talk_010.mp3'', ''Talk_999.mp3'', ''Talk_1000.mp3'']"
proof -
  define f where "f = \<lparr>file_name = ''Talk.MP3'', file_type = ''audio/mpeg'', file_data = [7, 7]\<rparr>"
  define env where "env =
      \<lparr>script_loaded = True, load_resolves = True, initial_fs = [], fetchFile_resolves = True,
        run_reports = [],
        run_writes = [(''Talk_010.mp3'', [1]), (''Talk_002.mp3'', [2]),
                      (''Talk_1000.mp3'', [3]), (''Talk_999.mp3'', [4])],
        run_resolves = True\<rparr>"
  define s where "s = splitter_init\<lparr>selectedFile := Some f\<rparr>"
  have h1: "selectedFile s = Some f"
    by (simp add: s_def)
  have h2: "0 < splitDuration s"
    by (simp add: s_def splitter_init_def)
  have h3: "ffmpegRef s \<noteq> None \<or> (script_loaded env \<and> load_resolves env)"
    by (simp add: env_def)
  have h4: "fetchFile_resolves env" and h5: "run_resolves env"
    by (simp_all add: env_def)
  have h6: "filter (\<lambda>n. startsWith n (splitter_baseName (file_name f)))
           (FS_readdir (fs_after_run env f (job_fs env s))) =
         map (outputPattern (splitter_baseName (file_name f)) (originalExtension_of (file_name f)))
           [10, 2, 1000, 999]"
    unfolding f_def env_def s_def by code_simp
  have h7: "[10, 2, 1000, 999 :: nat] \<noteq> []"
    by simp
  have "map (outputPattern (splitter_baseName (file_name f)) (originalExtension_of (file_name f)))
          (sort [10, 2, 1000, 999]) =
        [''Talk_002.mp3'', ''Talk_010.mp3'', ''Talk_999.mp3'', ''Talk_1000.mp3'']"
    unfolding f_def by code_simp
  with outputs_sorted_by_index [OF h1 h2 h3 h4 h5 h6 h7] show ?thesis
    unfolding f_def env_def s_def by simp
qed

subsection \<open>Requests that are rejected\<close>

text \<open>
  Claim C9. A call of \<open>handleSplit\<close> with no file selected, or with a split duration
  that is not positive, only sets the validation message: every other part of the state
  (status, output segments, the engine ref and with it the working area) stays as it
  was, and the outcome does not depend on what the engine would have done.
\<close>

theorem invalid_request_rejected:
  assumes "selectedFile s = None \<or> splitDuration s \<le> 0"
  shows "(handleSplit env s = s\<lparr>job_error := Some SelectFileFirst\<rparr> \<or>
          handleSplit env s = s\<lparr>job_error := Some DurationMustBePositive\<rparr>) \<and>
         job_status (handleSplit env s) = job_status s \<and>
         splitFiles (handleSplit env s) = splitFiles s \<and>
         ffmpegRef (handleSplit env s) = ffmpegRef s \<and>
         engine_fs (handleSplit env s) = engine_fs s \<and>
         handleSplit env s = handleSplit env' s"
  using assms by (auto simp: handleSplit_def engine_fs_def split: option.split)

theorem invalid_request_rejected_witness:
  "splitDuration (splitter_init\<lparr>selectedFile :=
       Some \<lparr>file_name = ''Talk.MP3'', file_type = ''audio/mpeg'', file_data = [7, 7]\<rparr>,
     splitDuration := 0\<rparr>) \<le> 0 \<and>
   handleSplit
     \<lparr>script_loaded = True, load_resolves = True, initial_fs = [], fetchFile_resolves = True,
       run_reports = [], run_writes = [(''Talk_000.mp3'', [1])], run_resolves = True\<rparr>
     (splitter_init\<lparr>selectedFile :=
        Some \<lparr>file_name = ''Talk.MP3'', file_type = ''audio/mpeg'', file_data = [7, 7]\<rparr>,
      splitDuration := 0\<rparr>) =
   splitter_init\<lparr>selectedFile :=
       Some \<lparr>file_name = ''Talk.MP3'', file_type = ''audio/mpeg'', file_data = [7, 7]\<rparr>,
     splitDuration := 0, job_error := Some DurationMustBePositive\<rparr>"
proof -
  define s where "s = splitter_init\<lparr>selectedFile :=
       Some \<lparr>file_name = ''Talk.MP3'', file_type = ''audio/mpeg'', file_data = [7, 7]\<rparr>,
     splitDuration := 0\<rparr>"
  have h: "selectedFile s = None \<or> splitDuration s \<le> 0"
    by (simp add: s_def)
  have "handleSplit env s \<noteq> s\<lparr>job_error := Some SelectFileFirst\<rparr>" for env
    by (simp add: handleSplit_def s_def splitter_init_def)
  with invalid_request_rejected [OF h] show ?thesis
    unfolding s_def by (auto simp: splitter_init_def)
qed

subsection \<open>The working area after a job that throws\<close>

text \<open>
  Claim C1 does not hold of the code. The two \<^verbatim>\<open>unlink\<close> calls stand inside the
  \<^verbatim>\<open>try\<close> block, after \<^verbatim>\<open>run\<close>; the \<^verbatim>\<open>catch\<close> block deletes nothing. When
  \<^verbatim>\<open>run\<close> throws after the input was written and one output was produced, the job
  ends \<open>SIdle\<close> with the failure message and both files still in the working area.
  A job that ends \<open>SDone\<close> does leave the working area without them (lemma
  \<open>handleSplit_done_clean\<close>).
\<close>

theorem failed_run_leaves_files:
  "FS_readdir (engine_fs (handleSplit
      \<lparr>script_loaded = True, load_resolves = True, initial_fs = [], fetchFile_resolves = True,
        run_reports = [], run_writes = [(''Talk_000.mp3'', [1])], run_resolves = False\<rparr>
      (splitter_init\<lparr>selectedFile :=
         Some \<lparr>file_name = ''Talk.MP3'', file_type = ''audio/mpeg'', file_data = [7, 7]\<rparr>\<rparr>))) =
     [''input.mp3'', ''Talk_000.mp3''] \<and>
   job_status (handleSplit
      \<lparr>script_loaded = True, load_resolves = True, initial_fs = [], fetchFile_resolves = True,
        run_reports = [], run_writes = [(''Talk_000.mp3'', [1])], run_resolves = False\<rparr>
      (splitter_init\<lparr>selectedFile :=
         Some \<lparr>file_name = ''Talk.MP3'', file_type = ''audio/mpeg'', file_data = [7, 7]\<rparr>\<rparr>)) = SIdle \<and>
   job_error (handleSplit
      \<lparr>script_loaded = True, load_resolves = True, initial_fs = [], fetchFile_resolves = True,
        run_reports = [], run_writes = [(''Talk_000.mp3'', [1])], run_resolves = False\<rparr>
      (splitter_init\<lparr>selectedFile :=
         Some \<lparr>file_name = ''Talk.MP3'', file_type = ''audio/mpeg'', file_data = [7, 7]\<rparr>\<rparr>)) =
     Some ProcessingFailed"
  by code_simp

subsection \<open>What the progress callback publishes\<close>

text \<open>
  Claim C5. Let the component have gone through any events (files chosen, the duration
  edited, jobs run, the list cleared), and let a job be started whose \<open>loadFFmpeg\<close>
  returns. Then \<open>progressRatio\<close> lies in \<open>[0, 1]\<close> before the job and in every state
  while \<^verbatim>\<open>run\<close> is in progress, whatever reports \<open>rs\<close> the engine has made; it does
  not decrease from the start of the job to the entry into \<^verbatim>\<open>'processing'\<close>, from
  there to any state during \<^verbatim>\<open>run\<close>, from one report to the next, and from there to
  the end of the job; and a report \<open>r\<close> that arrives between jobs leaves it as it is,
  while the reports during \<^verbatim>\<open>run\<close> arrive in status \<open>SProcessing\<close>. The reason is
  that the status tested at line 64 is the one the callback was created in, which is
  never \<^verbatim>\<open>'processing'\<close>: no report is ever published, and the value stays at the 0
  of lines 30 and 106 (lemma \<open>progressRatio_stays_zero\<close>).
\<close>

theorem progressRatio_within_unit_interval:
  "0 \<le> progressRatio (splitter_run es splitter_init) \<and>
   progressRatio (splitter_run es splitter_init) \<le> 1 \<and>
   progressRatio (report_progress r (splitter_run es splitter_init)) =
     progressRatio (splitter_run es splitter_init) \<and>
   (loadFFmpeg env ((splitter_run es splitter_init)\<lparr>job_error := None, splitFiles := []\<rparr>) = Inr s1 \<longrightarrow>
      progressRatio (splitter_run es splitter_init) \<le> progressRatio (begin_processing s1) \<and>
      progressRatio (begin_processing s1) \<le> progressRatio (while_running env f (begin_processing s1) rs) \<and>
      0 \<le> progressRatio (while_running env f (begin_processing s1) rs) \<and>
      progressRatio (while_running env f (begin_processing s1) rs) \<le> 1 \<and>
      job_status (while_running env f (begin_processing s1) rs) = SProcessing \<and>
      progressRatio (while_running env f (begin_processing s1) rs) \<le>
        progressRatio (while_running env f (begin_processing s1) (rs @ [r])) \<and>
      progressRatio (while_running env f (begin_processing s1) (rs @ [r])) \<le>
        progressRatio (handleSplit env (splitter_run es splitter_init)))"
proof -
  have b: "between_jobs (splitter_run es splitter_init)"
    by (rule splitter_run_between_jobs [OF between_jobs_init])
  then have z: "progressRatio (splitter_run es splitter_init) = 0"
    by (simp add: between_jobs_def)
  have "callback_blind (splitter_run es splitter_init)"
    using b by (simp add: between_jobs_def)
  then have q: "report_progress r (splitter_run es splitter_init) = splitter_run es splitter_init"
    by (rule report_progress_blind)
  have j: "progressRatio (splitter_run es splitter_init) \<le> progressRatio (begin_processing s1) \<and>
      progressRatio (begin_processing s1) \<le> progressRatio (while_running env f (begin_processing s1) rs) \<and>
      0 \<le> progressRatio (while_running env f (begin_processing s1) rs) \<and>
      progressRatio (while_running env f (begin_processing s1) rs) \<le> 1 \<and>
      job_status (while_running env f (begin_processing s1) rs) = SProcessing \<and>
      progressRatio (while_running env f (begin_processing s1) rs) \<le>
        progressRatio (while_running env f (begin_processing s1) (rs @ [r])) \<and>
      progressRatio (while_running env f (begin_processing s1) (rs @ [r])) \<le>
        progressRatio (handleSplit env (splitter_run es splitter_init))"
    if l: "loadFFmpeg env ((splitter_run es splitter_init)\<lparr>job_error := None, splitFiles := []\<rparr>) = Inr s1"
  proof -
    note zero = progressRatio_stays_zero [OF l]
    have "progressRatio (while_running env f (begin_processing s1) rs) = 0"
      and "progressRatio (while_running env f (begin_processing s1) (rs @ [r])) = 0"
      and "progressRatio (handleSplit env (splitter_run es splitter_init)) = 0"
      by (rule zero)+
    then show ?thesis
      by (simp add: z)
  qed
  from z q j show ?thesis
    by simp
qed

text \<open>
  A job on \<^verbatim>\<open>Talk.MP3\<close> in a fresh component: the engine is created in status
  \<open>SIdle\<close>, and its reports of one half and of one fifth, made while the job is
  processing, leave \<open>progressRatio\<close> at 0.
\<close>

theorem progressRatio_within_unit_interval_witness:
  "loadFFmpeg
     \<lparr>script_loaded = True, load_resolves = True, initial_fs = [], fetchFile_resolves = True,
       run_reports = [(1 / 2, 50), (1 / 5, 20)], run_writes = [(''Talk_000.mp3'', [1])],
       run_resolves = True\<rparr>
     ((splitter_run
         [FileSelected \<lparr>file_name = ''Talk.MP3'', file_type = ''audio/mpeg'', file_data = [7, 7]\<rparr>]
         splitter_init)\<lparr>job_error := None, splitFiles := []\<rparr>) =
   Inr \<lparr>selectedFile = Some \<lparr>file_name = ''Talk.MP3'', file_type = ''audio/mpeg'', file_data = [7, 7]\<rparr>,
         splitDuration = 25, job_status = SLoading, progressMessage = LoadingCore,
         progressRatio = 0, job_error = None, splitFiles = [],
         ffmpegRef = Some \<lparr>progress_status = SIdle, fs = []\<rparr>\<rparr> \<and>
   job_status (while_running
     \<lparr>script_loaded = True, load_resolves = True, initial_fs = [], fetchFile_resolves = True,
       run_reports = [(1 / 2, 50), (1 / 5, 20)], run_writes = [(''Talk_000.mp3'', [1])],
       run_resolves = True\<rparr>
     \<lparr>file_name = ''Talk.MP3'', file_type = ''audio/mpeg'', file_data = [7, 7]\<rparr>
     (begin_processing
        \<lparr>selectedFile = Some \<lparr>file_name = ''Talk.MP3'', file_type = ''audio/mpeg'', file_data = [7, 7]\<rparr>,
          splitDuration = 25, job_status = SLoading, progressMessage = LoadingCore,
          progressRatio = 0, job_error = None, splitFiles = [],
          ffmpegRef = Some \<lparr>progress_status = SIdle, fs = []\<rparr>\<rparr>)
     [(1 / 2, 50)]) = SProcessing \<and>
   progressRatio (while_running
     \<lparr>script_loaded = True, load_resolves = True, initial_fs = [], fetchFile_resolves = True,
       run_reports = [(1 / 2, 50), (1 / 5, 20)], run_writes = [(''Talk_000.mp3'', [1])],
       run_resolves = True\<rparr>
     \<lparr>file_name = ''Talk.MP3'', file_type = ''audio/mpeg'', file_data = [7, 7]\<rparr>
     (begin_processing
        \<lparr>selectedFile = Some \<lparr>file_name = ''Talk.MP3'', file_type = ''audio/mpeg'', file_data = [7, 7]\<rparr>,
          splitDuration = 25, job_status = SLoading, progressMessage = LoadingCore,
          progressRatio = 0, job_error = None, splitFiles = [],
          ffmpegRef = Some \<lparr>progress_status = SIdle, fs = []\<rparr>\<rparr>)
     ([(1 / 2, 50)] @ [(1 / 5, 20)])) = 0 \<and>
   progressRatio (handleSplit
     \<lparr>script_loaded = True, load_resolves = True, initial_fs = [], fetchFile_resolves = True,
       run_reports = [(1 / 2, 50), (1 / 5, 20)], run_writes = [(''Talk_000.mp3'', [1])],
       run_resolves = True\<rparr>
     (splitter_run
        [FileSelected \<lparr>file_name = ''Talk.MP3'', file_type = ''audio/mpeg'', file_data = [7, 7]\<rparr>]
        splitter_init)) = 0"
proof -
  define f where "f = \<lparr>file_name = ''Talk.MP3'', file_type = ''audio/mpeg'', file_data = [7, 7]\<rparr>"
  define env where "env =
     \<lparr>script_loaded = True, load_resolves = True, initial_fs = [], fetchFile_resolves = True,
       run_reports = [(1 / 2, 50 :: int), (1 / 5, 20)], run_writes = [(''Talk_000.mp3'', [1])],
       run_resolves = True\<rparr>"
  define s1 where "s1 =
     \<lparr>selectedFile = Some f, splitDuration = 25, job_status = SLoading, progressMessage = LoadingCore,
       progressRatio = 0, job_error = None, splitFiles = [],
       ffmpegRef = Some \<lparr>progress_status = SIdle, fs = []\<rparr>\<rparr>"
  have l: "loadFFmpeg env ((splitter_run [FileSelected f] splitter_init)\<lparr>job_error := None, splitFiles := []\<rparr>) =
           Inr s1"
    by (simp add: loadFFmpeg_def splitter_run_def handleFileSelect_def splitter_init_def
        env_def s1_def Let_def)
  have e: "progressRatio (handleSplit env (splitter_run [FileSelected f] splitter_init)) = 0"
    unfolding env_def f_def by code_simp
  from progressRatio_within_unit_interval [of "[FileSelected f]" "(1 / 5, 20)" env s1 f "[(1 / 2, 50)]"] l e
  have "job_status (while_running env f (begin_processing s1) [(1 / 2, 50)]) = SProcessing \<and>
        progressRatio (while_running env f (begin_processing s1) ([(1 / 2, 50)] @ [(1 / 5, 20)])) = 0"
    by simp
  with l e show ?thesis
    unfolding f_def env_def s1_def by simp
qed

end
